theory Spec2Isabelle
  imports Complex_Main "HOL-Library.Char_ord" "HOL-Library.List_Lexorder"
    "HOL-Library.Product_Lexorder" "HOL-Library.AList" "HOL-Library.Monad_Syntax"
begin

section \<open>Data model of the block diagram viewer\<close>

text \<open>
  The development follows \<^verbatim>\<open>components/workspace/chat-panel.tsx\<close> (the
  \<^verbatim>\<open>BlockDiagramViewer\<close> part). A JavaScript \<^verbatim>\<open>number\<close> is modelled as a
  real number, and NaN and the infinities of IEEE doubles are outside the model
  (\<^verbatim>\<open>Infinity\<close> as the start value of a minimum search is modelled by \<open>None\<close>).
  In the layout, the router and the pointer handlers the arithmetic is exact: what is
  proved of them is about structure (which entries change, which branch is taken), not
  about the digits of a computed number. The wheel handler and the zoom buttons are the
  exception: what is said of them is an identity between computed numbers, so there every
  arithmetic operation is rounded to the nearest double, as the language does (section
  \<open>Double-precision numbers\<close>). Counters that only ever hold natural numbers are \<open>nat\<close>.
  A \<^verbatim>\<open>Map\<close> is an association list in insertion order, a \<^verbatim>\<open>Set\<close> a list without
  repetition in insertion order, and an SVG path string is the list of its points
  (\<^verbatim>\<open>parsePathPoints\<close> and \<^verbatim>\<open>pointsToPath\<close> convert between the two).
\<close>

type_synonym point = "real \<times> real"

datatype signal_type = Power | Data | Analog | Digital | Control

text \<open>Only the fields of \<^verbatim>\<open>Block\<close> that the diagram code reads are kept.\<close>

record Block =
  block_id :: string
  inputs :: "string list"
  outputs :: "string list"
  host_hardware :: "string option"

record BlockConnection =
  from_block :: string
  to_block :: string
  signal_name :: string
  signal_kind :: signal_type

record LayoutBlock =
  lb_block :: Block
  lb_x :: real
  lb_y :: real
  lb_width :: real
  lb_height :: real

definition BLOCK_WIDTH :: real where "BLOCK_WIDTH = 180"
definition BLOCK_HEADER :: real where "BLOCK_HEADER = 36"
definition PORT_ROW :: real where "PORT_ROW = 20"
definition H_GAP :: real where "H_GAP = 200"
definition PADDING :: real where "PADDING = 60"
definition CONNECTION_SPREAD :: real where "CONNECTION_SPREAD = 15"

section \<open>Port resolution\<close>

datatype side = Input | Output

text \<open>\<^verbatim>\<open>Array.prototype.indexOf\<close>: the first index holding the value, or \<open>-1\<close>.\<close>

fun indexOf :: "'a list \<Rightarrow> 'a \<Rightarrow> int" where
  "indexOf [] v = -1"
| "indexOf (x # xs) v =
     (if x = v then 0 else (let r = indexOf xs v in if r < 0 then -1 else r + 1))"

definition getPortPosition :: "LayoutBlock \<Rightarrow> string \<Rightarrow> side \<Rightarrow> point" where
  "getPortPosition lb portName sd =
     (let ports = (if sd = Input then inputs (lb_block lb) else outputs (lb_block lb));
          idx = indexOf ports portName;
          i = (if idx \<ge> 0 then idx else 0);
          x = (if sd = Input then lb_x lb else lb_x lb + lb_width lb);
          y = lb_y lb + BLOCK_HEADER + 10 + of_int i * PORT_ROW
      in (x, y))"

section \<open>Hierarchical layout\<close>

text \<open>
  \<^verbatim>\<open>layoutBlocks\<close>. The block adjacency maps \<^verbatim>\<open>blockIncoming\<close> and \<^verbatim>\<open>blockOutgoing\<close> that
  the source builds first are never read afterwards and are left out.
\<close>

text \<open>\<^verbatim>\<open>if (hw)\<close> for an optional string: defined and not empty.\<close>

definition truthy :: "string option \<Rightarrow> bool" where
  "truthy hw = (hw \<noteq> None \<and> hw \<noteq> Some [])"

text \<open>\<^verbatim>\<open>Set.prototype.add\<close>, the set kept as a list in insertion order.\<close>

definition set_add :: "'a list \<Rightarrow> 'a \<Rightarrow> 'a list" where
  "set_add s v = (if v \<in> set s then s else s @ [v])"

text \<open>
  \<^verbatim>\<open>map.get(k) ?? []\<close>; also used where the source writes \<^verbatim>\<open>map.get(k)!\<close>, the key
  being one the map was initialised with.
\<close>

definition lookup_set :: "('k \<times> 'v list) list \<Rightarrow> 'k \<Rightarrow> 'v list" where
  "lookup_set m k = (case map_of m k of None \<Rightarrow> [] | Some s \<Rightarrow> s)"

text \<open>\<^verbatim>\<open>map.get(k)!.add(v)\<close> on a map from keys to sets.\<close>

definition adj_add :: "'k \<Rightarrow> 'v \<Rightarrow> ('k \<times> 'v list) list \<Rightarrow> ('k \<times> 'v list) list" where
  "adj_add k v m = AList.map_entry k (\<lambda>s. set_add s v) m"

text \<open>The key of a block without hardware: \<^verbatim>\<open>__solo_\<close> and the counter \<^verbatim>\<open>soloGroupId\<close> in decimal.\<close>

definition digit_char :: "nat \<Rightarrow> char" where
  "digit_char d = char_of (48 + d)"

fun string_of_nat :: "nat \<Rightarrow> string" where
  "string_of_nat n =
     (if n < 10 then [digit_char n] else string_of_nat (n div 10) @ [digit_char (n mod 10)])"

definition solo_key :: "nat \<Rightarrow> string" where
  "solo_key n = ''__solo_'' @ string_of_nat n"

text \<open>
  Level 1: blocks with the same non-empty \<^verbatim>\<open>host_hardware\<close> form a group, every other
  block a group of its own. The state of the loop is the map and the counter.
\<close>

definition hwGroupMap_step ::
  "(string \<times> Block list) list \<times> nat \<Rightarrow> Block \<Rightarrow> (string \<times> Block list) list \<times> nat" where
  "hwGroupMap_step st b =
     (case st of (m, soloGroupId) \<Rightarrow>
        if truthy (host_hardware b) then
          (case host_hardware b of
             Some hw \<Rightarrow>
               (let m1 = (if map_of m hw = None then AList.update hw [] m else m)
                in (AList.map_entry hw (\<lambda>bs. bs @ [b]) m1, soloGroupId))
           | None \<Rightarrow> (m, soloGroupId))
        else (AList.update (solo_key soloGroupId) [b] m, soloGroupId + 1))"

definition hwGroupMap :: "Block list \<Rightarrow> (string \<times> Block list) list" where
  "hwGroupMap blocks = fst (foldl hwGroupMap_step ([], 0) blocks)"

text \<open>The group adjacency: connections whose two ends are in different groups.\<close>

definition blockToGroupIdx :: "(string \<times> Block list) list \<Rightarrow> (string \<times> nat) list" where
  "blockToGroupIdx groups =
     foldl (\<lambda>m (i, g). foldl (\<lambda>m b. AList.update (block_id b) i m) m (snd g))
       [] (enumerate 0 groups)"

definition empty_adj :: "'k list \<Rightarrow> ('k \<times> 'v list) list" where
  "empty_adj ks = foldl (\<lambda>m k. AList.update k [] m) [] ks"

definition groupAdjacency ::
  "(string \<times> Block list) list \<Rightarrow> BlockConnection list \<Rightarrow>
     (nat \<times> nat list) list \<times> (nat \<times> nat list) list" where
  "groupAdjacency groups connections =
     (let b2g = blockToGroupIdx groups;
          init = empty_adj [0..<length groups]
      in foldl (\<lambda>(inc, out) c.
           (case (map_of b2g (from_block c), map_of b2g (to_block c)) of
              (Some fromGroup, Some toGroup) \<Rightarrow>
                if fromGroup \<noteq> toGroup
                then (adj_add toGroup fromGroup inc, adj_add fromGroup toGroup out)
                else (inc, out)
            | _ \<Rightarrow> (inc, out)))
         (init, init) connections)"

text \<open>
  The breadth-first layering, written twice in the source (for the groups and, inside a
  group, for the blocks). One round of the \<^verbatim>\<open>while\<close> loop gives the current column to
  the frontier nodes that have none yet, then collects the destinations of the frontier
  that are still unassigned as the next frontier.
\<close>

definition assign_frontier ::
  "'a list \<Rightarrow> nat \<Rightarrow> ('a \<times> nat) list \<times> 'a list \<Rightarrow> ('a \<times> nat) list \<times> 'a list" where
  "assign_frontier frontier col st =
     foldl (\<lambda>(cm, assigned) v.
              if v \<in> set assigned then (cm, assigned)
              else (AList.update v col cm, assigned @ [v]))
       st frontier"

definition next_frontier :: "('a \<times> 'a list) list \<Rightarrow> 'a list \<Rightarrow> 'a list \<Rightarrow> 'a list" where
  "next_frontier out assigned frontier =
     foldl (\<lambda>nx v. foldl (\<lambda>nx dest. if dest \<in> set assigned then nx else set_add nx dest)
                      nx (lookup_set out v))
       [] frontier"


text \<open>
  The loop ends: the nodes that can still be assigned (the destinations of the adjacency
  map and the frontier, less the assigned ones) become fewer in every round but possibly
  the first.
\<close>

definition dests :: "('a \<times> 'a list) list \<Rightarrow> 'a set" where
  "dests out = (\<Union>e \<in> set out. set (snd e))"

lemma assign_frontier_fold:
  "snd (foldl (\<lambda>(cm, assigned) v.
              if v \<in> set assigned then (cm, assigned)
              else (AList.update v col cm, assigned @ [v])) st frontier) = 
   foldl (\<lambda>assigned v. if v \<in> set assigned then assigned else assigned @ [v]) (snd st) frontier"
  by (induction frontier arbitrary: st) (auto simp: case_prod_beta)

lemma set_assign_frontier:
  "set (snd (assign_frontier frontier col (cm, assigned))) = set assigned \<union> set frontier"
proof -
  have "set (foldl (\<lambda>assigned v. if v \<in> set assigned then assigned else assigned @ [v]) a frontier)
        = set a \<union> set frontier" for a :: "'a list"
    by (induction frontier arbitrary: a) auto
  then show ?thesis
    unfolding assign_frontier_def by (simp add: assign_frontier_fold)
qed

lemma lookup_set_dests: "set (lookup_set out v) \<subseteq> dests out"
proof (cases "map_of out v")
  case None
  then show ?thesis by (simp add: lookup_set_def)
next
  case (Some s)
  then have "(v, s) \<in> set out" by (rule map_of_SomeD)
  then have "set s \<subseteq> dests out" unfolding dests_def by force
  with Some show ?thesis by (simp add: lookup_set_def)
qed

lemma set_set_add: "set (set_add s v) = insert v (set s)"
  by (auto simp: set_add_def)

lemma next_inner_subset:
  "set (foldl (\<lambda>nx dest. if dest \<in> set assigned then nx else set_add nx dest) nx ds)
     \<subseteq> set nx \<union> (set ds - set assigned)"
proof (induction ds arbitrary: nx)
  case Nil
  then show ?case by simp
next
  case (Cons d ds)
  show ?case
  proof (cases "d \<in> set assigned")
    case True
    then show ?thesis using Cons.IH[of nx] by auto
  next
    case False
    then show ?thesis using Cons.IH[of "set_add nx d"] by (auto simp: set_set_add)
  qed
qed

lemma next_outer_subset:
  "set (foldl (\<lambda>nx v. foldl (\<lambda>nx dest. if dest \<in> set assigned then nx else set_add nx dest)
                      nx (lookup_set out v)) nx frontier)
     \<subseteq> set nx \<union> (dests out - set assigned)"
proof (induction frontier arbitrary: nx)
  case Nil
  then show ?case by simp
next
  case (Cons v frontier)
  show ?case
    using Cons.IH[of "foldl (\<lambda>nx dest. if dest \<in> set assigned then nx else set_add nx dest)
                      nx (lookup_set out v)"]
      next_inner_subset[of assigned nx "lookup_set out v"] lookup_set_dests[of out v]
    by auto
qed

lemma set_next_frontier:
  "set (next_frontier out assigned frontier) \<subseteq> dests out - set assigned"
  unfolding next_frontier_def using next_outer_subset[of assigned out "[]" frontier] by simp

lemma finite_dests: "finite (dests out)"
  unfolding dests_def by simp

function bfs_layers ::
  "('a \<times> 'a list) list \<Rightarrow> 'a list \<Rightarrow> ('a \<times> nat) list \<Rightarrow> 'a list \<Rightarrow> nat \<Rightarrow>
     ('a \<times> nat) list \<times> nat" where
  "bfs_layers out frontier cm assigned col =
     (if frontier = [] then (cm, col)
      else (let st = assign_frontier frontier col (cm, assigned)
            in bfs_layers out (next_frontier out (snd st) frontier) (fst st) (snd st) (col + 1)))"
  by pat_completeness auto
termination
proof (relation "measure (\<lambda>(out, frontier, cm, assigned, col).
         2 * card ((dests out \<union> set frontier) - set assigned) +
         (if frontier \<noteq> [] \<and> set frontier \<subseteq> set assigned then 1 else 0))", goal_cases)
  case 1
  then show ?case by simp
next
  case (2 out frontier cm assigned col st)
  define A where "A = set (snd st)"
  define N where "N = set (next_frontier out (snd st) frontier)"
  have A: "A = set assigned \<union> set frontier"
    unfolding A_def 2(2) by (rule set_assign_frontier)
  have N: "N \<subseteq> dests out - A"
    unfolding N_def A_def by (rule set_next_frontier)
  have fin: "finite ((dests out \<union> set frontier) - set assigned)"
    by (simp add: finite_dests)
  have sub: "(dests out \<union> N) - A \<subseteq> (dests out \<union> set frontier) - set assigned"
    using A N by auto
  have new0: "\<not> (next_frontier out (snd st) frontier \<noteq> [] \<and> N \<subseteq> A)"
  proof
    assume h: "next_frontier out (snd st) frontier \<noteq> [] \<and> N \<subseteq> A"
    then have "N \<noteq> {}" unfolding N_def by simp
    with N h show False by auto
  qed
  show ?case
  proof (cases "set frontier \<subseteq> set assigned")
    case True
    have "card ((dests out \<union> N) - A) \<le> card ((dests out \<union> set frontier) - set assigned)"
      by (rule card_mono[OF fin sub])
    with True 2(1) new0 show ?thesis
      by (auto simp: A_def[symmetric] N_def[symmetric])
  next
    case False
    then obtain v where v: "v \<in> set frontier" "v \<notin> set assigned" by auto
    have "v \<in> (dests out \<union> set frontier) - set assigned" using v by simp
    moreover have "v \<notin> (dests out \<union> N) - A" using v A by simp
    ultimately have "(dests out \<union> N) - A \<subset> (dests out \<union> set frontier) - set assigned"
      using sub by blast
    then have "card ((dests out \<union> N) - A) < card ((dests out \<union> set frontier) - set assigned)"
      by (rule psubset_card_mono[OF fin])
    with new0 False 2(1) show ?thesis
      by (auto simp: A_def[symmetric] N_def[symmetric])
  qed
qed


definition GROUP_PAD_X :: real where "GROUP_PAD_X = 20"
definition GROUP_PAD_TOP :: real where "GROUP_PAD_TOP = 30"
definition GROUP_PAD_BOTTOM :: real where "GROUP_PAD_BOTTOM = 20"
definition GROUP_GAP :: real where "GROUP_GAP = 40"
definition INTRA_GROUP_H_GAP :: real where "INTRA_GROUP_H_GAP = 40"
definition INTRA_GROUP_V_GAP :: real where "INTRA_GROUP_V_GAP = 20"

text \<open>Columns of the hardware groups (level 1): group \<open>i\<close> is the \<open>i\<close>-th entry of the map.\<close>

definition groupColumns_of :: "(string \<times> Block list) list \<Rightarrow> BlockConnection list \<Rightarrow> nat list" where
  "groupColumns_of groups connections =
     (let adj = groupAdjacency groups connections;
          rootGroups = filter (\<lambda>i. length (lookup_set (fst adj) i) = 0) [0..<length groups];
          r = bfs_layers (snd adj) rootGroups [] [] 0
      in map (\<lambda>i. case map_of (fst r) i of Some c \<Rightarrow> c | None \<Rightarrow> snd r) [0..<length groups])"

text \<open>Adjacency inside one group (level 2): only connections with both ends in the group.\<close>

definition intraAdjacency ::
  "Block list \<Rightarrow> BlockConnection list \<Rightarrow>
     (string \<times> string list) list \<times> (string \<times> string list) list" where
  "intraAdjacency gblocks connections =
     (let groupBlockIds = map block_id gblocks;
          init = empty_adj groupBlockIds
      in foldl (\<lambda>(inc, out) c.
           if from_block c \<in> set groupBlockIds \<and> to_block c \<in> set groupBlockIds
           then (adj_add (to_block c) (from_block c) inc, adj_add (from_block c) (to_block c) out)
           else (inc, out))
         (init, init) connections)"

definition blockColumn :: "Block list \<Rightarrow> BlockConnection list \<Rightarrow> (string \<times> nat) list" where
  "blockColumn gblocks connections =
     (let adj = intraAdjacency gblocks connections;
          roots = filter (\<lambda>b. length (lookup_set (fst adj) (block_id b)) = 0) gblocks;
          r = bfs_layers (snd adj) (map block_id roots) [] [] 0
      in foldl (\<lambda>cm b. if map_of cm (block_id b) = None
                          then AList.update (block_id b) (snd r) cm else cm)
           (fst r) gblocks)"

definition subColGroups :: "(string \<times> nat) list \<Rightarrow> Block list \<Rightarrow> (nat \<times> Block list) list" where
  "subColGroups cols gblocks =
     foldl (\<lambda>m b.
              (let c = (case map_of cols (block_id b) of Some c \<Rightarrow> c | None \<Rightarrow> 0);
                   m1 = (if map_of m c = None then AList.update c [] m else m)
               in AList.map_entry c (\<lambda>bs. bs @ [b]) m1))
       [] gblocks"

definition blockHeight :: "Block \<Rightarrow> real" where
  "blockHeight b =
     BLOCK_HEADER + real (max (max (length (inputs b)) (length (outputs b))) 1) * PORT_ROW + 12"

text \<open>The blocks of one sub-column, stacked from \<open>yOffset\<close> downwards.\<close>

fun stackBlocks :: "real \<Rightarrow> real \<Rightarrow> Block list \<Rightarrow> LayoutBlock list" where
  "stackBlocks x yOffset [] = []"
| "stackBlocks x yOffset (b # bs) =
     \<lparr>lb_block = b, lb_x = x, lb_y = yOffset, lb_width = BLOCK_WIDTH, lb_height = blockHeight b\<rparr>
       # stackBlocks x (yOffset + blockHeight b + INTRA_GROUP_V_GAP) bs"

definition tempLayout :: "Block list \<Rightarrow> BlockConnection list \<Rightarrow> LayoutBlock list" where
  "tempLayout gblocks connections =
     concat (map (\<lambda>(subCol, blockList).
                    stackBlocks (real subCol * (BLOCK_WIDTH + INTRA_GROUP_H_GAP)) 0 blockList)
               (subColGroups (blockColumn gblocks connections) gblocks))"

text \<open>
  \<^verbatim>\<open>Math.max(...xs)\<close> and \<^verbatim>\<open>Math.min(...xs)\<close>; the source only calls them on
  non-empty lists (the result for the empty list, an infinity, is outside the model).
\<close>

fun Math_max :: "real list \<Rightarrow> real" where
  "Math_max [] = 0"
| "Math_max (v # vs) = foldl max v vs"

fun Math_min :: "real list \<Rightarrow> real" where
  "Math_min [] = 0"
| "Math_min (v # vs) = foldl min v vs"

text \<open>A hardware group with its column and the layout of its blocks relative to the group.\<close>

record hwGroup =
  g_name :: string
  g_blocks :: "Block list"
  g_column :: nat
  g_layoutBlocks :: "LayoutBlock list"
  g_width :: real
  g_height :: real

definition layoutGroup :: "BlockConnection list \<Rightarrow> (string \<times> Block list) \<times> nat \<Rightarrow> hwGroup" where
  "layoutGroup connections gc =
     (let tl = tempLayout (snd (fst gc)) connections;
          minX = Math_min (map lb_x tl);
          minY = Math_min (map lb_y tl);
          maxX = Math_max (map (\<lambda>lb. lb_x lb + lb_width lb) tl);
          maxY = Math_max (map (\<lambda>lb. lb_y lb + lb_height lb) tl)
      in \<lparr>g_name = fst (fst gc), g_blocks = snd (fst gc), g_column = snd gc,
          g_layoutBlocks = tl,
          g_width = (if tl = [] then 0 else maxX - minX + GROUP_PAD_X * 2),
          g_height = (if tl = [] then 0 else maxY - minY + GROUP_PAD_TOP + GROUP_PAD_BOTTOM)\<rparr>)"

text \<open>Level 3: the groups of one column are stacked; the columns advance left to right.\<close>

definition groupColumnsMap :: "hwGroup list \<Rightarrow> (nat \<times> nat list) list" where
  "groupColumnsMap hwGroups =
     foldl (\<lambda>m (i, g).
              (let m1 = (if map_of m (g_column g) = None then AList.update (g_column g) [] m else m)
               in AList.map_entry (g_column g) (\<lambda>is. is @ [i]) m1))
       [] (enumerate 0 hwGroups)"

fun placeColumn :: "hwGroup list \<Rightarrow> real \<Rightarrow> real \<Rightarrow> nat list \<Rightarrow> (nat \<times> point) list" where
  "placeColumn hwGroups canvasX canvasY [] = []"
| "placeColumn hwGroups canvasX canvasY (i # is) =
     (i, (canvasX, canvasY))
       # placeColumn hwGroups canvasX (canvasY + g_height (hwGroups ! i) + GROUP_GAP) is"

fun placeColumns ::
  "hwGroup list \<Rightarrow> (nat \<times> nat list) list \<Rightarrow> real \<Rightarrow> nat list \<Rightarrow> (nat \<times> point) list" where
  "placeColumns hwGroups gcm canvasX [] = []"
| "placeColumns hwGroups gcm canvasX (col # cols) =
     (let colGroups = lookup_set gcm col;
          maxWidth = Math_max (map (\<lambda>i. g_width (hwGroups ! i)) colGroups)
      in placeColumn hwGroups canvasX PADDING colGroups
           @ placeColumns hwGroups gcm (canvasX + maxWidth + H_GAP) cols)"

text \<open>\<^verbatim>\<open>lb.x += groupX + GROUP_PAD_X; lb.y += groupY + GROUP_PAD_TOP\<close>.\<close>

definition translateBlock :: "real \<Rightarrow> real \<Rightarrow> LayoutBlock \<Rightarrow> LayoutBlock" where
  "translateBlock dx dy lb = lb\<lparr>lb_x := lb_x lb + dx, lb_y := lb_y lb + dy\<rparr>"

definition layoutBlocks :: "Block list \<Rightarrow> BlockConnection list \<Rightarrow> LayoutBlock list" where
  "layoutBlocks blocks connections =
     (if blocks = [] then []
      else
       (let groups = hwGroupMap blocks;
            hwGroups = map (layoutGroup connections) (zip groups (groupColumns_of groups connections));
            gcm = groupColumnsMap hwGroups;
            pos = placeColumns hwGroups gcm PADDING (sort (map fst gcm))
        in concat (map (\<lambda>(i, g).
                     (case map_of pos i of
                        Some (groupX, groupY) \<Rightarrow>
                          map (translateBlock (groupX + GROUP_PAD_X) (groupY + GROUP_PAD_TOP))
                            (g_layoutBlocks g)
                      | None \<Rightarrow> g_layoutBlocks g))
                   (enumerate 0 hwGroups))))"

section \<open>Orthogonal router\<close>

definition lineIntersectsBlock :: "real \<Rightarrow> real \<Rightarrow> real \<Rightarrow> LayoutBlock \<Rightarrow> real \<Rightarrow> bool" where
  "lineIntersectsBlock x startY endY block margin =
     (let minY = min startY endY;
          maxY = max startY endY;
          blockLeft = lb_x block - margin;
          blockRight = lb_x block + lb_width block + margin;
          blockTop = lb_y block - margin;
          blockBottom = lb_y block + lb_height block + margin
      in x \<ge> blockLeft \<and> x \<le> blockRight \<and> maxY \<ge> blockTop \<and> minY \<le> blockBottom)"

text \<open>\<^verbatim>\<open>!blocks.some((b) => lineIntersectsBlock(x, startY, endY, b, margin))\<close> with margin 10.\<close>

definition channelClear :: "real \<Rightarrow> real \<Rightarrow> LayoutBlock list \<Rightarrow> real \<Rightarrow> bool" where
  "channelClear startY endY blocks x =
     (\<not> list_ex (\<lambda>b. lineIntersectsBlock x startY endY b 10) blocks)"

text \<open>The loop \<^verbatim>\<open>for (let offset = 20; offset <= 300; offset += 20)\<close> and the final return.\<close>

function probeOffsets :: "real \<Rightarrow> real \<Rightarrow> real \<Rightarrow> LayoutBlock list \<Rightarrow> nat \<Rightarrow> real" where
  "probeOffsets preferredX startY endY blocks offset =
     (if offset \<le> 300 then
        (let leftX = preferredX - real offset in
         if channelClear startY endY blocks leftX then leftX
         else
          (let rightX = preferredX + real offset in
           if channelClear startY endY blocks rightX then rightX
           else probeOffsets preferredX startY endY blocks (offset + 20)))
      else preferredX)"
  by pat_completeness auto
termination
  by (relation "measure (\<lambda>(preferredX, startY, endY, blocks, offset). 320 - offset)") auto

declare probeOffsets.simps [simp del]

definition findClearVerticalChannel :: "real \<Rightarrow> real \<Rightarrow> real \<Rightarrow> LayoutBlock list \<Rightarrow> real" where
  "findClearVerticalChannel preferredX startY endY blocks =
     (if channelClear startY endY blocks preferredX then preferredX
      else probeOffsets preferredX startY endY blocks 20)"

type_synonym path = "point list"

definition computeOrthogonalPath ::
  "point \<Rightarrow> point \<Rightarrow> LayoutBlock list \<Rightarrow> bool \<Rightarrow> real \<Rightarrow> path" where
  "computeOrthogonalPath fromPort toPort allBlocks sameGroup verticalOffset =
     (let exitDistance = (if sameGroup then 20 else 40);
          exitX = fst fromPort + exitDistance;
          entryX = fst toPort - exitDistance;
          fromY = snd fromPort + verticalOffset;
          toY = snd toPort + verticalOffset
      in
      if \<bar>fst toPort - fst fromPort\<bar> < BLOCK_WIDTH * 0.5 then
        (let jogX = fst fromPort + 30 + \<bar>verticalOffset\<bar>
         in [fromPort, (jogX, fromY), (jogX, toY), toPort])
      else if fst toPort > fst fromPort + exitDistance * 2 then
        (let midX = (exitX + entryX) / 2;
             baseChannelX = findClearVerticalChannel midX fromY toY allBlocks;
             channelX = baseChannelX + verticalOffset * 0.7
         in if \<bar>fromY - toY\<bar> < 1 then [fromPort, toPort]
            else [fromPort, (channelX, fromY), (channelX, toY), toPort])
      else
        (let nearSourceBlocks = filter (\<lambda>b. \<bar>lb_y b - snd fromPort\<bar> < lb_height b + 40) allBlocks;
             sourceRight = (if length nearSourceBlocks > 0
                            then Math_max (map (\<lambda>b. lb_x b + lb_width b) nearSourceBlocks @ [fst fromPort])
                            else fst fromPort);
             nearDestBlocks = filter (\<lambda>b. \<bar>lb_y b - snd toPort\<bar> < lb_height b + 40) allBlocks;
             destLeft = (if length nearDestBlocks > 0
                         then Math_min (map lb_x nearDestBlocks @ [fst toPort])
                         else fst toPort);
             loopRightX = sourceRight + 30;
             loopLeftX = destLeft - 30
         in if length allBlocks = 0 then [fromPort, toPort]
            else
             (let minTop = Math_min (map lb_y allBlocks) - 40;
                  maxBottom = Math_max (map (\<lambda>b. lb_y b + lb_height b) allBlocks) + 40;
                  goUp = (\<bar>fromY - minTop\<bar> + \<bar>toY - minTop\<bar>
                            < \<bar>fromY - maxBottom\<bar> + \<bar>toY - maxBottom\<bar>);
                  loopY = (if goUp then minTop + verticalOffset else maxBottom + verticalOffset)
              in [fromPort, (loopRightX, fromY), (loopRightX, loopY), (loopLeftX, loopY),
                  (loopLeftX, toY), toPort])))"

section \<open>Path helpers\<close>

text \<open>\<^verbatim>\<open>Math.hypot\<close> of two arguments.\<close>

definition hypot :: "real \<Rightarrow> real \<Rightarrow> real" where
  "hypot a b = sqrt (a * a + b * b)"

definition pointToSegmentDist :: "real \<Rightarrow> real \<Rightarrow> real \<Rightarrow> real \<Rightarrow> real \<Rightarrow> real \<Rightarrow> real" where
  "pointToSegmentDist px py ax ay bx by =
     (let dx = bx - ax;
          dy = by - ay;
          lenSq = dx * dx + dy * dy
      in if lenSq = 0 then hypot (px - ax) (py - ay)
         else (let t = max 0 (min 1 (((px - ax) * dx + (py - ay) * dy) / lenSq))
               in hypot (px - (ax + t * dx)) (py - (ay + t * dy))))"

text \<open>
  The nearest-segment search of the double-click handler and of \<^verbatim>\<open>removeWaypoint\<close>:
  \<^verbatim>\<open>bestSeg = 0, bestDist = Infinity\<close>, then every segment \<open>s\<close> in order, replacing the
  best on a strictly smaller distance.
\<close>

definition nearestStep :: "point \<Rightarrow> path \<Rightarrow> nat \<times> real option \<Rightarrow> nat \<Rightarrow> nat \<times> real option" where
  "nearestStep p pts best s =
     (case best of (bestSeg, bestDist) \<Rightarrow>
        (let dist = pointToSegmentDist (fst p) (snd p)
                      (fst (pts ! s)) (snd (pts ! s))
                      (fst (pts ! (s + 1))) (snd (pts ! (s + 1)))
         in if (case bestDist of None \<Rightarrow> True | Some bd \<Rightarrow> dist < bd)
            then (s, Some dist) else (bestSeg, bestDist)))"

definition nearestSegment :: "point \<Rightarrow> path \<Rightarrow> nat" where
  "nearestSegment p pts = fst (foldl (nearestStep p pts) (0, None) [0..<length pts - 1])"

text \<open>Move interior path points by their overrides; the two end points never move.\<close>

definition applyPointOverrides :: "path \<Rightarrow> (real \<times> real) list \<Rightarrow> path" where
  "applyPointOverrides pts overrides =
     (if length pts < 3 then pts
      else map (\<lambda>(i, p).
                  if 1 \<le> i \<and> i < length pts - 1 \<and> i - 1 < length overrides
                     \<and> (\<bar>fst (overrides ! (i - 1))\<bar> > 0.1 \<or> \<bar>snd (overrides ! (i - 1))\<bar> > 0.1)
                  then (fst p + fst (overrides ! (i - 1)), snd p + snd (overrides ! (i - 1)))
                  else p)
             (enumerate 0 pts))"


datatype js_error = TypeError | SyntaxError | StorageError

text \<open>
  The segment a waypoint is attached to in \<^verbatim>\<open>insertWaypointsIntoPath\<close>: the same
  search, written inline in the source with the parameter \<open>t\<close> of the closest point
  kept beside the index.
\<close>

record wpSeg =
  ws_wp :: point
  ws_segIdx :: nat
  ws_t :: real

definition locateStep ::
  "path \<Rightarrow> point \<Rightarrow> real option \<times> nat \<times> real \<Rightarrow> nat \<Rightarrow> real option \<times> nat \<times> real" where
  "locateStep points wp best s =
     (case best of (bestDist, bestIdx, bestT) \<Rightarrow>
        (let p1 = points ! s;
             p2 = points ! (s + 1);
             dx = fst p2 - fst p1;
             dy = snd p2 - snd p1;
             lenSq = dx * dx + dy * dy;
             t = (if lenSq = 0 then 0
                  else max 0 (min 1 (((fst wp - fst p1) * dx + (snd wp - snd p1) * dy) / lenSq)));
             dist = hypot (fst wp - (fst p1 + t * dx)) (snd wp - (snd p1 + t * dy))
         in if (case bestDist of None \<Rightarrow> True | Some bd \<Rightarrow> dist < bd)
            then (Some dist, s, t) else (bestDist, bestIdx, bestT)))"

definition locateWaypoint :: "path \<Rightarrow> point \<Rightarrow> wpSeg" where
  "locateWaypoint points wp =
     (case foldl (locateStep points wp) (None, 0, 0) [0..<length points - 1] of
        (bestDist, bestIdx, bestT) \<Rightarrow> \<lparr>ws_wp = wp, ws_segIdx = bestIdx, ws_t = bestT\<rparr>)"

text \<open>
  \<^verbatim>\<open>wpWithSeg.sort((a, b) => b.segIdx - a.segIdx || b.t - a.t)\<close>: a stable sort,
  descending in the segment index and then in \<open>t\<close>.
\<close>

definition sortWpWithSeg :: "wpSeg list \<Rightarrow> wpSeg list" where
  "sortWpWithSeg ws = sort_key (\<lambda>w. (- int (ws_segIdx w), - ws_t w)) ws"

text \<open>\<^verbatim>\<open>points.splice(k, 0, q, q)\<close>.\<close>

definition splice2 :: "nat \<Rightarrow> 'a \<Rightarrow> 'a list \<Rightarrow> 'a list" where
  "splice2 k q xs = take k xs @ [q, q] @ drop k xs"

text \<open>
  One round of the splitting loop. Reading a point past the end of the array gives
  \<^verbatim>\<open>undefined\<close>, whose field access raises a \<^verbatim>\<open>TypeError\<close>.
\<close>

definition splitSegment :: "wpSeg list \<Rightarrow> path \<Rightarrow> nat \<Rightarrow> js_error + path" where
  "splitSegment wpWithSeg points segIdx =
     (if segIdx + 1 < length points then
        (let p1 = points ! segIdx;
             p2 = points ! (segIdx + 1);
             isHoriz = (\<bar>snd p1 - snd p2\<bar> < 1)
         in case find (\<lambda>w. ws_segIdx w = segIdx) wpWithSeg of
              None \<Rightarrow> Inl TypeError
            | Some w \<Rightarrow>
               if isHoriz then
                 (let splitY = snd p1;
                      splitX = fst (ws_wp w);
                      minX = min (fst p1) (fst p2) + 5;
                      maxX = max (fst p1) (fst p2) - 5;
                      clampedX = max minX (min maxX splitX)
                  in Inr (splice2 (segIdx + 1) (clampedX, splitY) points))
               else
                 (let splitX = fst p1;
                      splitY = snd (ws_wp w);
                      minY = min (snd p1) (snd p2) + 5;
                      maxY = max (snd p1) (snd p2) - 5;
                      clampedY = max minY (min maxY splitY)
                  in Inr (splice2 (segIdx + 1) (splitX, clampedY) points)))
      else Inl TypeError)"

fun splitSegments :: "wpSeg list \<Rightarrow> path \<Rightarrow> wpSeg list \<Rightarrow> js_error + path" where
  "splitSegments wpWithSeg points [] = Inr points"
| "splitSegments wpWithSeg points (w # rest) =
     (case splitSegment wpWithSeg points (ws_segIdx w) of
        Inl e \<Rightarrow> Inl e
      | Inr points' \<Rightarrow> splitSegments wpWithSeg points' rest)"

definition insertWaypointsIntoPath :: "path \<Rightarrow> point list \<Rightarrow> js_error + path" where
  "insertWaypointsIntoPath pts waypoints =
     (if length waypoints = 0 then Inr pts
      else (let wpWithSeg = sortWpWithSeg (map (locateWaypoint pts) waypoints)
            in splitSegments wpWithSeg pts wpWithSeg))"



section \<open>Connection spreading\<close>

text \<open>\<^verbatim>\<open>[conn.from_block, conn.to_block].sort().join('<->')\<close>; strings compare by code unit.\<close>

definition pairKey :: "BlockConnection \<Rightarrow> string" where
  "pairKey conn =
     (if to_block conn < from_block conn
      then to_block conn @ ''<->'' @ from_block conn
      else from_block conn @ ''<->'' @ to_block conn)"

definition pairGroups :: "BlockConnection list \<Rightarrow> (string \<times> nat list) list" where
  "pairGroups conns =
     foldl (\<lambda>m (i, conn).
              (let key = pairKey conn;
                   m1 = (if map_of m key = None then AList.update key [] m else m)
               in AList.map_entry key (\<lambda>is. is @ [i]) m1))
       [] (enumerate 0 conns)"

definition spreadOffsets :: "nat list \<Rightarrow> (nat \<times> real) list" where
  "spreadOffsets indices =
     (let groupSize = length indices
      in map (\<lambda>(positionInGroup, idx).
                (let spreadFactor = (if groupSize = 1 then 0
                                     else real positionInGroup - (real groupSize - 1) / 2)
                 in (idx, spreadFactor * CONNECTION_SPREAD)))
           (enumerate 0 indices))"

definition connectionOffsets :: "BlockConnection list \<Rightarrow> (nat \<times> real) list" where
  "connectionOffsets conns =
     foldl (\<lambda>offsets indices. foldl (\<lambda>offsets (idx, v). AList.update idx v offsets)
                                  offsets (spreadOffsets indices))
       [] (map snd (pairGroups conns))"

section \<open>Viewer state, derived geometry\<close>

type_synonym override = "real \<times> real"

record viewerProps =
  p_designId :: "string option"
  p_blocks :: "Block list"
  p_connections :: "BlockConnection list"

record viewerState =
  zoom :: real
  pan :: point
  dragging :: bool
  hoveredConn :: "nat option"
  hoveredConnRef :: "nat option"
  lastPos :: point
  draggedBlockId :: "string option"
  draggedBlockRef :: "string option"
  blockPositionOverrides :: "(string \<times> point) list"
  connPointOverrides :: "(nat \<times> override list) list"
  connWaypoints :: "(nat \<times> point list) list"
  selectedConn :: "nat option"
  draggedNodeRef :: "(nat \<times> nat) option"
  dragStartPos :: "real \<times> real \<times> real \<times> real"
  connDragStart :: point
  connDragBaseOverrides :: "override list"

text \<open>The state of a freshly mounted viewer (the arguments of the \<^verbatim>\<open>useState\<close> and \<^verbatim>\<open>useRef\<close> calls).\<close>

definition initialState :: viewerState where
  "initialState =
     \<lparr>zoom = 1, pan = (0, 0), dragging = False, hoveredConn = None, hoveredConnRef = None,
      lastPos = (0, 0), draggedBlockId = None, draggedBlockRef = None,
      blockPositionOverrides = [], connPointOverrides = [], connWaypoints = [],
      selectedConn = None, draggedNodeRef = None, dragStartPos = (0, 0, 0, 0),
      connDragStart = (0, 0), connDragBaseOverrides = []\<rparr>"

text \<open>The \<^verbatim>\<open>layout\<close> memo: the computed layout with the stored block positions put in.\<close>

definition applyBlockOverride :: "(string \<times> point) list \<Rightarrow> LayoutBlock \<Rightarrow> LayoutBlock" where
  "applyBlockOverride ovs lb =
     (case map_of ovs (block_id (lb_block lb)) of
        Some ov \<Rightarrow> lb\<lparr>lb_x := fst ov, lb_y := snd ov\<rparr>
      | None \<Rightarrow> lb)"

definition layout :: "viewerProps \<Rightarrow> (string \<times> point) list \<Rightarrow> LayoutBlock list" where
  "layout props ovs = map (applyBlockOverride ovs) (layoutBlocks (p_blocks props) (p_connections props))"

definition layoutMap :: "LayoutBlock list \<Rightarrow> (string \<times> LayoutBlock) list" where
  "layoutMap lay = foldl (\<lambda>m lb. AList.update (block_id (lb_block lb)) lb m) [] lay"

definition areBlocksInSameGroup :: "string \<Rightarrow> string \<Rightarrow> (string \<times> LayoutBlock) list \<Rightarrow> bool" where
  "areBlocksInSameGroup fromBlockId toBlockId lm =
     (case (map_of lm fromBlockId, map_of lm toBlockId) of
        (Some fromLb, Some toLb) \<Rightarrow>
          (let fromHw = host_hardware (lb_block fromLb);
               toHw = host_hardware (lb_block toLb)
           in if \<not> truthy fromHw \<or> \<not> truthy toHw then False else fromHw = toHw)
      | _ \<Rightarrow> False)"

text \<open>
  The un-waypointed base path of a connection, as \<^verbatim>\<open>computedPaths\<close>, the double-click
  handler and \<^verbatim>\<open>removeWaypoint\<close> each compute it; \<open>None\<close> when an end block is not in
  the layout.
\<close>

definition basePathOf ::
  "LayoutBlock list \<Rightarrow> BlockConnection list \<Rightarrow> nat \<Rightarrow> BlockConnection \<Rightarrow> path option" where
  "basePathOf lay conns i conn =
     (let lm = layoutMap lay
      in case (map_of lm (from_block conn), map_of lm (to_block conn)) of
           (Some fromLb, Some toLb) \<Rightarrow>
             (let fromPort = getPortPosition fromLb (signal_name conn) Output;
                  toPort = getPortPosition toLb (signal_name conn) Input;
                  sameGroup = areBlocksInSameGroup (from_block conn) (to_block conn) lm;
                  vertOffset = (case map_of (connectionOffsets conns) i of
                                  Some v \<Rightarrow> v | None \<Rightarrow> 0)
              in Some (computeOrthogonalPath fromPort toPort lay sameGroup vertOffset))
         | _ \<Rightarrow> None)"

text \<open>\<^verbatim>\<open>map.get(k) ?? []\<close> on the override maps.\<close>

definition getList :: "('k \<times> 'v list) list \<Rightarrow> 'k \<Rightarrow> 'v list" where
  "getList m k = (case map_of m k of Some v \<Rightarrow> v | None \<Rightarrow> [])"

text \<open>One entry of \<^verbatim>\<open>computedPaths\<close>: the rendered points of connection \<open>i\<close>.\<close>

definition computedPath ::
  "viewerProps \<Rightarrow> viewerState \<Rightarrow> nat \<Rightarrow> BlockConnection \<Rightarrow> js_error + path option" where
  "computedPath props st i conn =
     (case basePathOf (layout props (blockPositionOverrides st)) (p_connections props) i conn of
        None \<Rightarrow> Inr None
      | Some basePath \<Rightarrow>
         (case insertWaypointsIntoPath basePath (getList (connWaypoints st) i) of
            Inl e \<Rightarrow> Inl e
          | Inr wpPath \<Rightarrow>
             (case map_of (connPointOverrides st) i of
                Some pointOvs \<Rightarrow>
                  Inr (Some (if length pointOvs > 0 then applyPointOverrides wpPath pointOvs
                             else wpPath))
              | None \<Rightarrow> Inr (Some wpPath))))"

definition computedPaths :: "viewerProps \<Rightarrow> viewerState \<Rightarrow> (js_error + path option) list" where
  "computedPaths props st =
     map (\<lambda>(i, conn). computedPath props st i conn) (enumerate 0 (p_connections props))"


text \<open>
  A render fails as a whole when one connection's path computation raises; a handler only
  ever runs after a successful render, and reads its result from \<^verbatim>\<open>computedPathsRef\<close>.
\<close>

fun sequenceSum :: "('e + 'a) list \<Rightarrow> 'e + 'a list" where
  "sequenceSum [] = Inr []"
| "sequenceSum (Inl e # rs) = Inl e"
| "sequenceSum (Inr v # rs) = (case sequenceSum rs of Inl e \<Rightarrow> Inl e | Inr vs \<Rightarrow> Inr (v # vs))"

definition computedPathsRef :: "viewerProps \<Rightarrow> viewerState \<Rightarrow> path option list" where
  "computedPathsRef props st =
     (case sequenceSum (computedPaths props st) of Inl e \<Rightarrow> [] | Inr paths \<Rightarrow> paths)"

section \<open>Double-precision numbers\<close>

text \<open>
  IEEE 754 binary64 arithmetic on finite numbers. A double is a real number of the form
  \<open>n * 2 ^ (e - 52)\<close> with \<open>\<bar>n\<bar> < 2 ^ 53\<close>, \<open>- 1022 \<le> e\<close> and \<open>e \<le> 1023\<close>; an arithmetic operation
  returns the double nearest to its exact result, the one with the even \<open>n\<close> when two are
  equally near. Below \<open>2 ^ - 1022\<close> the spacing of the doubles stays \<open>2 ^ - 1074\<close>
  (subnormal numbers). A result that rounds to \<open>2 ^ 1024\<close> or beyond is \<^verbatim>\<open>Infinity\<close> in
  the language, and a division by zero is an infinity or NaN: both are \<open>None\<close> here, since
  the state of the viewer is modelled with finite numbers only. The sign of zero is not
  kept.
\<close>

text \<open>The number of binary digits of a natural number.\<close>

fun bits :: "nat \<Rightarrow> nat" where
  "bits n = (if n = 0 then 0 else Suc (bits (n div 2)))"

declare bits.simps [simp del]

text \<open>For \<open>x > 0\<close>, the exponent \<open>e\<close> with \<open>2 ^ e \<le> x < 2 ^ (e + 1)\<close>.\<close>

definition ilog2 :: "real \<Rightarrow> int" where
  "ilog2 x = (if 1 \<le> x then int (bits (nat \<lfloor>x\<rfloor>)) - 1
              else - int (bits (nat (\<lceil>1 / x\<rceil> - 1))))"

text \<open>The nearest integer, the even one of the two at a tie.\<close>

definition roundEven :: "real \<Rightarrow> int" where
  "roundEven q =
     (let f = \<lfloor>q\<rfloor>; r = q - of_int f
      in if r < 1 / 2 then f else if 1 / 2 < r then f + 1 else if even f then f else f + 1)"

text \<open>Rounding a real number to the nearest double; \<open>None\<close> on overflow.\<close>

definition fl :: "real \<Rightarrow> real option" where
  "fl x =
     (if x = 0 then Some 0
      else (let e = max (ilog2 \<bar>x\<bar>) (- 1022);
                u = 2 powi (e - 52);
                y = of_int (roundEven (x / u)) * u
            in if 2 powi 1024 \<le> \<bar>y\<bar> then None else Some y))"

text \<open>The double that a decimal literal of the source denotes.\<close>

definition lit :: "real \<Rightarrow> real" where
  "lit x = (case fl x of Some y \<Rightarrow> y | None \<Rightarrow> 0)"

text \<open>The operators \<^verbatim>\<open>+\<close>, \<^verbatim>\<open>-\<close>, \<^verbatim>\<open>*\<close> and \<^verbatim>\<open>/\<close> on numbers.\<close>

definition fadd :: "real \<Rightarrow> real \<Rightarrow> real option" where
  "fadd a b = fl (a + b)"

definition fsub :: "real \<Rightarrow> real \<Rightarrow> real option" where
  "fsub a b = fl (a - b)"

definition fmul :: "real \<Rightarrow> real \<Rightarrow> real option" where
  "fmul a b = fl (a * b)"

definition fdiv :: "real \<Rightarrow> real \<Rightarrow> real option" where
  "fdiv a b = (if b = 0 then None else fl (a / b))"

text \<open>
  The unit roundoff of binary64 and half the spacing of the subnormal numbers: rounding
  changes a number \<open>x\<close> by at most \<open>u53 * \<bar>x\<bar> + eta\<close>.
\<close>

definition u53 :: real where
  "u53 = 2 powi (- 53)"

definition eta :: real where
  "eta = 2 powi (- 1075)"

section \<open>Pointer events\<close>

text \<open>
  The geometry of the SVG element that the handlers read from the DOM (its bounding
  rectangle and view box), and the pointer position of a mouse event.
\<close>

record svgGeometry =
  rect_left :: real
  rect_top :: real
  rect_width :: real
  rect_height :: real
  vb_width :: real
  vb_height :: real

record mouseEvent =
  clientX :: real
  clientY :: real

definition toSvg :: "svgGeometry \<Rightarrow> mouseEvent \<Rightarrow> point" where
  "toSvg g e =
     ((clientX e - rect_left g) * vb_width g / rect_width g,
      (clientY e - rect_top g) * vb_height g / rect_height g)"

text \<open>The geometric hit test: the path with the globally nearest segment.\<close>

definition nearestPath :: "point \<Rightarrow> path option list \<Rightarrow> nat option \<times> real option" where
  "nearestPath p paths =
     foldl (\<lambda>best (ci, cp).
              (case cp of
                 None \<Rightarrow> best
               | Some pts \<Rightarrow>
                   foldl (\<lambda>(bestIdx, bestDist) s.
                            (let d = pointToSegmentDist (fst p) (snd p)
                                       (fst (pts ! s)) (snd (pts ! s))
                                       (fst (pts ! (s + 1))) (snd (pts ! (s + 1)))
                             in if (case bestDist of None \<Rightarrow> True | Some bd \<Rightarrow> d < bd)
                                then (Some ci, Some d) else (bestIdx, bestDist)))
                     best [0..<length pts - 1]))
       (None, None) (enumerate 0 paths)"

definition nearestInteriorNode :: "point \<Rightarrow> path \<Rightarrow> nat option \<times> real option" where
  "nearestInteriorNode p pts =
     foldl (\<lambda>(nearestNodeIdx, nearestNodeDist) i.
              (let d = hypot (fst (pts ! i) - fst p) (snd (pts ! i) - snd p)
               in if (case nearestNodeDist of None \<Rightarrow> True | Some nd \<Rightarrow> d < nd)
                  then (Some i, Some d) else (nearestNodeIdx, nearestNodeDist)))
       (None, None) [1..<length pts - 1]"

definition handleMouseDown :: "mouseEvent \<Rightarrow> viewerState \<Rightarrow> viewerState" where
  "handleMouseDown e st =
     st\<lparr>selectedConn := None, dragging := True, lastPos := (clientX e, clientY e)\<rparr>"

definition handleBlockMouseDown ::
  "string \<Rightarrow> real \<Rightarrow> real \<Rightarrow> mouseEvent \<Rightarrow> viewerState \<Rightarrow> viewerState" where
  "handleBlockMouseDown blockId blockX blockY e st =
     st\<lparr>draggedBlockRef := Some blockId, draggedBlockId := Some blockId,
        dragStartPos := (blockX, blockY, clientX e, clientY e)\<rparr>"

definition handleConnMouseDown ::
  "viewerProps \<Rightarrow> svgGeometry option \<Rightarrow> nat \<Rightarrow> mouseEvent \<Rightarrow> viewerState \<Rightarrow> viewerState" where
  "handleConnMouseDown props svgEl eventConnIdx e st =
     (case svgEl of
        None \<Rightarrow> st
      | Some g \<Rightarrow>
         if vb_width g = 0 \<or> vb_height g = 0 then st
         else
          (let p = toSvg g e;
               paths = computedPathsRef props st;
               targetIdx = (case fst (nearestPath p paths) of Some ci \<Rightarrow> ci | None \<Rightarrow> eventConnIdx);
               cp = (if targetIdx < length paths then paths ! targetIdx else None);
               st1 =
                 (case cp of
                    None \<Rightarrow> st
                  | Some pts \<Rightarrow>
                     if length pts \<ge> 3 then
                       (case nearestInteriorNode p pts of
                          (Some nearestNodeIdx, Some nearestNodeDist) \<Rightarrow>
                            if nearestNodeDist < 25
                            then st\<lparr>draggedNodeRef := Some (targetIdx, nearestNodeIdx),
                                    connDragStart := (clientX e, clientY e),
                                    connDragBaseOverrides := getList (connPointOverrides st) targetIdx\<rparr>
                            else st
                        | _ \<Rightarrow> st)
                     else st)
           in st1\<lparr>selectedConn := Some targetIdx, hoveredConn := Some targetIdx,
                   hoveredConnRef := Some targetIdx\<rparr>))"

definition handleNodeMouseDown :: "nat \<Rightarrow> nat \<Rightarrow> mouseEvent \<Rightarrow> viewerState \<Rightarrow> viewerState" where
  "handleNodeMouseDown connIdx pointIdx e st =
     st\<lparr>draggedNodeRef := Some (connIdx, pointIdx),
        connDragStart := (clientX e, clientY e),
        connDragBaseOverrides := getList (connPointOverrides st) connIdx,
        selectedConn := Some connIdx\<rparr>"

text \<open>\<^verbatim>\<open>Map.delete\<close> when the list became empty, \<^verbatim>\<open>Map.set\<close> otherwise.\<close>

definition setOrDelete :: "'k \<Rightarrow> 'v list \<Rightarrow> ('k \<times> 'v list) list \<Rightarrow> ('k \<times> 'v list) list" where
  "setOrDelete k v m = (if length v = 0 then AList.delete k m else AList.update k v m)"

definition removeWaypoint ::
  "viewerProps \<Rightarrow> nat \<Rightarrow> nat \<Rightarrow> viewerState \<Rightarrow> js_error + viewerState" where
  "removeWaypoint props connIdx wpIdx st =
     (let existingWps = getList (connWaypoints st) connIdx;
          wps = take wpIdx existingWps @ drop (wpIdx + 1) existingWps;
          newWaypoints = setOrDelete connIdx wps (connWaypoints st);
          overrides = getList (connPointOverrides st) connIdx;
          lay = layout props (blockPositionOverrides st)
      in if connIdx < length (p_connections props) then
           (case basePathOf lay (p_connections props) connIdx (p_connections props ! connIdx) of
              None \<Rightarrow>
                Inr (st\<lparr>connWaypoints := newWaypoints,
                        connPointOverrides := setOrDelete connIdx overrides (connPointOverrides st)\<rparr>)
            | Some basePoints \<Rightarrow>
                if wpIdx < length existingWps \<or> length basePoints < 2 then
                  (let bestSeg = nearestSegment (existingWps ! wpIdx) basePoints;
                       removeAt = bestSeg + wpIdx * 2;
                       overrides' = (if removeAt < length overrides
                                     then take removeAt overrides @ drop (removeAt + 2) overrides
                                     else overrides)
                   in Inr (st\<lparr>connWaypoints := newWaypoints,
                           connPointOverrides := setOrDelete connIdx overrides' (connPointOverrides st)\<rparr>))
                else Inl TypeError)
         else Inl TypeError)"

definition handleConnDoubleClick ::
  "viewerProps \<Rightarrow> svgGeometry option \<Rightarrow> nat \<Rightarrow> mouseEvent \<Rightarrow> viewerState \<Rightarrow> js_error + viewerState" where
  "handleConnDoubleClick props svgEl connIdx e st =
     (case svgEl of
        None \<Rightarrow> Inr st
      | Some g \<Rightarrow>
         (let p = toSvg g e;
              existingWps = getList (connWaypoints st) connIdx;
              removeIdx = find (\<lambda>i. hypot (fst (existingWps ! i) - fst p) (snd (existingWps ! i) - snd p) < 15)
                            [0..<length existingWps]
          in case removeIdx of
               Some i \<Rightarrow> removeWaypoint props connIdx i st
             | None \<Rightarrow>
                (let newWaypoints = AList.update connIdx (existingWps @ [p]) (connWaypoints st);
                     overrides = getList (connPointOverrides st) connIdx;
                     lay = layout props (blockPositionOverrides st)
                 in if connIdx < length (p_connections props) then
                      (case basePathOf lay (p_connections props) connIdx (p_connections props ! connIdx) of
                         None \<Rightarrow>
                           Inr (st\<lparr>connWaypoints := newWaypoints,
                                   connPointOverrides := AList.update connIdx overrides (connPointOverrides st)\<rparr>)
                       | Some basePath \<Rightarrow>
                          (case insertWaypointsIntoPath basePath existingWps of
                             Inl err \<Rightarrow> Inl err
                           | Inr expandedPts \<Rightarrow>
                              (let padded = overrides @ replicate (length expandedPts - 2 - length overrides) (0, 0);
                                   bestSeg = nearestSegment p expandedPts;
                                   overrides' = splice2 bestSeg (0, 0) padded
                               in Inr (st\<lparr>connWaypoints := newWaypoints,
                                       connPointOverrides := AList.update connIdx overrides' (connPointOverrides st)\<rparr>))))
                    else Inl TypeError)))"

definition handleCanvasMouseMove ::
  "viewerProps \<Rightarrow> svgGeometry option \<Rightarrow> mouseEvent \<Rightarrow> viewerState \<Rightarrow> viewerState" where
  "handleCanvasMouseMove props svgEl e st =
     (case draggedNodeRef st of
        Some (connIdx, pointIdx) \<Rightarrow>
          (let rawDx = clientX e - fst (connDragStart st);
               rawDy = clientY e - snd (connDragStart st)
           in if \<bar>rawDx\<bar> < 2 \<and> \<bar>rawDy\<bar> < 2 then st
              else
               (let dx = rawDx / zoom st;
                    dy = rawDy / zoom st;
                    base0 = connDragBaseOverrides st;
                    ovIdx = pointIdx - 1;
                    overrides = base0 @ replicate (ovIdx + 1 - length base0) (0, 0);
                    base = (if ovIdx < length base0 then base0 ! ovIdx else (0, 0));
                    overrides' = (if pointIdx \<ge> 1
                                  then overrides[ovIdx := (fst base + dx, snd base + dy)]
                                  else base0)
                in st\<lparr>connPointOverrides := AList.update connIdx overrides' (connPointOverrides st)\<rparr>))
      | None \<Rightarrow>
         (let activeBlock = draggedBlockRef st
          in if truthy activeBlock then
              (case dragStartPos st of (blockX, blockY, mouseX, mouseY) \<Rightarrow>
                (let rawDx = clientX e - mouseX;
                     rawDy = clientY e - mouseY
                 in if \<bar>rawDx\<bar> < 5 \<and> \<bar>rawDy\<bar> < 5 then st
                    else
                     (let dx = rawDx / zoom st;
                          dy = rawDy / zoom st
                      in st\<lparr>blockPositionOverrides :=
                              AList.update (the activeBlock) (max 0 (blockX + dx), max 0 (blockY + dy))
                                (blockPositionOverrides st)\<rparr>)))
             else if \<not> dragging st then
               (case svgEl of
                  None \<Rightarrow> st
                | Some g \<Rightarrow>
                   if vb_width g > 0 \<and> vb_height g > 0 then
                     (let p = toSvg g e;
                          best = nearestPath p (computedPathsRef props st);
                          newHovered = (case snd best of
                                          Some bestDist \<Rightarrow> if bestDist < 12 then fst best else None
                                        | None \<Rightarrow> None)
                      in if newHovered \<noteq> hoveredConnRef st
                         then st\<lparr>hoveredConnRef := newHovered, hoveredConn := newHovered\<rparr>
                         else st)
                   else st)
             else
               (let dx = clientX e - fst (lastPos st);
                    dy = clientY e - snd (lastPos st)
                in st\<lparr>pan := (fst (pan st) + dx, snd (pan st) + dy),
                       lastPos := (clientX e, clientY e)\<rparr>)))"

definition handleCanvasMouseUp :: "viewerState \<Rightarrow> viewerState" where
  "handleCanvasMouseUp st =
     st\<lparr>draggedBlockRef := None, draggedNodeRef := None, draggedBlockId := None, dragging := False\<rparr>"

definition handleReset :: "viewerState \<Rightarrow> viewerState" where
  "handleReset st = st\<lparr>zoom := 1, pan := (0, 0)\<rparr>"

text \<open>The zoom buttons: \<^verbatim>\<open>setZoom((z) => Math.min(z * 1.25, 5))\<close> and \<^verbatim>\<open>setZoom((z) => Math.max(z / 1.25, 0.2))\<close>.\<close>

definition handleZoomIn :: "viewerState \<Rightarrow> viewerState option" where
  "handleZoomIn st =
     do {
       z \<leftarrow> fmul (zoom st) 1.25;
       Some (st\<lparr>zoom := min z 5\<rparr>)
     }"

definition handleZoomOut :: "viewerState \<Rightarrow> viewerState option" where
  "handleZoomOut st =
     do {
       z \<leftarrow> fdiv (zoom st) 1.25;
       Some (st\<lparr>zoom := max z (lit 0.2)\<rparr>)
     }"

section \<open>Wheel: zoom and pan\<close>

record wheelEvent =
  w_ctrlKey :: bool
  w_deltaX :: real
  w_deltaY :: real
  w_clientX :: real
  w_clientY :: real
  w_rect_left :: real
  w_rect_top :: real

text \<open>
  The wheel listener, in double-precision arithmetic. The result is \<open>None\<close> when one of
  the numbers computed is not finite.
\<close>

definition onWheel :: "wheelEvent \<Rightarrow> viewerState \<Rightarrow> viewerState option" where
  "onWheel e st =
     (if w_ctrlKey e then
        do {
          delta \<leftarrow> fmul (- w_deltaY e) (lit 0.01);
          let oldZoom = zoom st;
          factor \<leftarrow> fadd 1 delta;
          scaled \<leftarrow> fmul oldZoom factor;
          let newZoom = min (max scaled (lit 0.2)) 5;
          mouseX \<leftarrow> fsub (w_clientX e) (w_rect_left e);
          mouseY \<leftarrow> fsub (w_clientY e) (w_rect_top e);
          offX \<leftarrow> fsub mouseX (fst (pan st));
          contentX \<leftarrow> fdiv offX oldZoom;
          offY \<leftarrow> fsub mouseY (snd (pan st));
          contentY \<leftarrow> fdiv offY oldZoom;
          zoomedX \<leftarrow> fmul contentX newZoom;
          newPanX \<leftarrow> fsub mouseX zoomedX;
          zoomedY \<leftarrow> fmul contentY newZoom;
          newPanY \<leftarrow> fsub mouseY zoomedY;
          Some (st\<lparr>zoom := newZoom, pan := (newPanX, newPanY)\<rparr>)
        }
      else
        do {
          x \<leftarrow> fsub (fst (pan st)) (w_deltaX e);
          y \<leftarrow> fsub (snd (pan st)) (w_deltaY e);
          Some (st\<lparr>pan := (x, y)\<rparr>)
        })"

section \<open>Persistence bridge\<close>

record LayoutData =
  ld_blockPositions :: "(string \<times> point) list"
  ld_pointOverrides :: "(nat \<times> override list) list"
  ld_waypoints :: "(nat \<times> point list) list"

text \<open>
  What \<^verbatim>\<open>JSON.parse\<close> returned, as far as the load effect looks at it: a falsy value
  (\<^verbatim>\<open>null\<close>, \<^verbatim>\<open>false\<close>, \<^verbatim>\<open>0\<close>, the empty string), or a truthy value, of which the
  effect reads the three properties; a property is \<open>None\<close> when the value does not have
  it (\<^verbatim>\<open>undefined\<close>) and the list of its entries otherwise. \<^verbatim>\<open>JSON.parse\<close> and
  \<^verbatim>\<open>JSON.stringify\<close> themselves are parameters of the model.
\<close>

record savedValue =
  sv_blockPositions :: "(string \<times> point) list option"
  sv_pointOverrides :: "(nat \<times> override list) list option"
  sv_waypoints :: "(nat \<times> point list) list option"

datatype jsonValue = Falsy | Truthy savedValue

text \<open>\<^verbatim>\<open>localStorage\<close>: reading raises when storage is unavailable, writing also when it is full.\<close>

record storage =
  items :: "(string \<times> string) list"
  readable :: bool
  writable :: bool

definition getItem :: "storage \<Rightarrow> string \<Rightarrow> js_error + string option" where
  "getItem ls k = (if readable ls then Inr (map_of (items ls) k) else Inl StorageError)"

definition setItem :: "storage \<Rightarrow> string \<Rightarrow> string \<Rightarrow> js_error + storage" where
  "setItem ls k v =
     (if writable ls then Inr (ls\<lparr>items := AList.update k v (items ls)\<rparr>) else Inl StorageError)"

definition getLayoutKey :: "string \<Rightarrow> string" where
  "getLayoutKey designId = ''hardforge-layout-'' @ designId"

text \<open>\<^verbatim>\<open>loadLayout\<close> catches every exception and returns \<^verbatim>\<open>null\<close>, which is falsy.\<close>

definition loadLayout :: "(string \<Rightarrow> js_error + jsonValue) \<Rightarrow> storage \<Rightarrow> string \<Rightarrow> jsonValue" where
  "loadLayout JSON_parse ls designId =
     (case getItem ls (getLayoutKey designId) of
        Inl e \<Rightarrow> Falsy
      | Inr None \<Rightarrow> Falsy
      | Inr (Some raw) \<Rightarrow>
          if raw = [] then Falsy
          else (case JSON_parse raw of Inl e \<Rightarrow> Falsy | Inr v \<Rightarrow> v))"

definition saveLayout :: "(LayoutData \<Rightarrow> string) \<Rightarrow> storage \<Rightarrow> string \<Rightarrow> LayoutData \<Rightarrow> storage" where
  "saveLayout JSON_stringify ls designId data =
     (case setItem ls (getLayoutKey designId) (JSON_stringify data) of
        Inl e \<Rightarrow> ls
      | Inr ls' \<Rightarrow> ls')"

text \<open>\<^verbatim>\<open>new Map(entries)\<close>.\<close>

definition mapOfEntries :: "('k \<times> 'v) list \<Rightarrow> ('k \<times> 'v) list" where
  "mapOfEntries es = foldl (\<lambda>m (k, v). AList.update k v m) [] es"

text \<open>
  The load effect. Reading \<^verbatim>\<open>.length\<close> of a property the saved value does not have
  raises a \<^verbatim>\<open>TypeError\<close>; the effect has no handler for it.
\<close>

definition loadEffect ::
  "(string \<Rightarrow> js_error + jsonValue) \<Rightarrow> storage \<Rightarrow> viewerProps \<Rightarrow> viewerState \<Rightarrow> js_error + viewerState" where
  "loadEffect JSON_parse ls props st =
     (case p_designId props of
        None \<Rightarrow> Inr st
      | Some designId \<Rightarrow>
         if designId = [] then Inr st
         else
          (case loadLayout JSON_parse ls designId of
             Falsy \<Rightarrow> Inr st
           | Truthy saved \<Rightarrow>
              (case sv_blockPositions saved of
                 None \<Rightarrow> Inl TypeError
               | Some bp \<Rightarrow>
                  (let st1 = (if length bp > 0 then st\<lparr>blockPositionOverrides := mapOfEntries bp\<rparr> else st)
                   in case sv_pointOverrides saved of
                        None \<Rightarrow> Inl TypeError
                      | Some po \<Rightarrow>
                         (let st2 = (if length po > 0 then st1\<lparr>connPointOverrides := mapOfEntries po\<rparr> else st1)
                          in case sv_waypoints saved of
                               None \<Rightarrow> Inl TypeError
                             | Some wp \<Rightarrow>
                                 Inr (if length wp > 0 then st2\<lparr>connWaypoints := mapOfEntries wp\<rparr>
                                      else st2))))))"

text \<open>
  The debounced save. \<open>layoutSaveTimer\<close> holds the write a pending timeout will do
  (the design id and the data its closure captured), \<open>None\<close> when no timeout is pending.
  The effect runs after every change of the design id or of an override collection:
  first the clean-up of its previous run, then its body. Only a run that scheduled a
  timeout returns a clean-up, and that clean-up cancels the timeout; a run that returned
  early scheduled nothing. So a timeout can only be pending from the run just before,
  and the clean-up phase amounts to cancelling the pending timeout, if there is one.
\<close>

record persistence =
  localStorage :: storage
  layoutSaveTimer :: "(string \<times> LayoutData) option"
  layoutSaved :: bool

definition saveEffectCleanup :: "persistence \<Rightarrow> persistence" where
  "saveEffectCleanup ps = ps\<lparr>layoutSaveTimer := None\<rparr>"

definition saveEffectBody :: "viewerProps \<Rightarrow> viewerState \<Rightarrow> persistence \<Rightarrow> persistence" where
  "saveEffectBody props st ps =
     (case p_designId props of
        None \<Rightarrow> ps
      | Some designId \<Rightarrow>
         if designId = [] then ps
         else if length (blockPositionOverrides st) = 0 \<and> length (connPointOverrides st) = 0
                 \<and> length (connWaypoints st) = 0 then ps
         else ps\<lparr>layoutSaveTimer :=
                   Some (designId,
                         \<lparr>ld_blockPositions = blockPositionOverrides st,
                          ld_pointOverrides = connPointOverrides st,
                          ld_waypoints = connWaypoints st\<rparr>)\<rparr>)"

definition saveEffect :: "viewerProps \<Rightarrow> viewerState \<Rightarrow> persistence \<Rightarrow> persistence" where
  "saveEffect props st ps = saveEffectBody props st (saveEffectCleanup ps)"

text \<open>The pending timeout fires, 500 ms after the last run of the effect.\<close>

definition saveTimerFires :: "(LayoutData \<Rightarrow> string) \<Rightarrow> persistence \<Rightarrow> persistence" where
  "saveTimerFires JSON_stringify ps =
     (case layoutSaveTimer ps of
        None \<Rightarrow> ps
      | Some (designId, data) \<Rightarrow>
          ps\<lparr>localStorage := saveLayout JSON_stringify (localStorage ps) designId data,
             layoutSaveTimer := None, layoutSaved := True\<rparr>)"

section \<open>Event sequences\<close>

text \<open>A whole block drag: pointer down on the block, pointer moves, release.\<close>

definition blockDrag ::
  "viewerProps \<Rightarrow> svgGeometry option \<Rightarrow> string \<Rightarrow> real \<Rightarrow> real \<Rightarrow> mouseEvent \<Rightarrow>
     mouseEvent list \<Rightarrow> viewerState \<Rightarrow> viewerState" where
  "blockDrag props svgEl blockId blockX blockY e0 moves st =
     handleCanvasMouseUp
       (foldl (\<lambda>s e. handleCanvasMouseMove props svgEl e s)
          (handleBlockMouseDown blockId blockX blockY e0 st) moves)"

text \<open>
  A double click that inserts a waypoint, followed at once by the removal of that
  waypoint (its index is the number of waypoints the connection had before).
\<close>

definition insertThenRemove ::
  "viewerProps \<Rightarrow> svgGeometry \<Rightarrow> nat \<Rightarrow> mouseEvent \<Rightarrow> viewerState \<Rightarrow> js_error + viewerState" where
  "insertThenRemove props g connIdx e st =
     (case handleConnDoubleClick props (Some g) connIdx e st of
        Inl err \<Rightarrow> Inl err
      | Inr st1 \<Rightarrow> removeWaypoint props connIdx (length (getList (connWaypoints st) connIdx)) st1)"

text \<open>Projections of the result of an event sequence that may have raised.\<close>

definition overridesAfter :: "nat \<Rightarrow> js_error + viewerState \<Rightarrow> js_error + override list" where
  "overridesAfter i r = (case r of Inl err \<Rightarrow> Inl err | Inr s \<Rightarrow> Inr (getList (connPointOverrides s) i))"

definition renderedAfter ::
  "viewerProps \<Rightarrow> nat \<Rightarrow> js_error + viewerState \<Rightarrow> js_error + path option" where
  "renderedAfter props i r =
     (case r of Inl err \<Rightarrow> Inl err | Inr s \<Rightarrow> computedPath props s i (p_connections props ! i))"

section \<open>Specification-level notions\<close>


text \<open>
  Follows the words of the specification: the point \<open>q\<close> lies on the segment from \<open>p1\<close>
  to \<open>p2\<close> (it is colinear with them and between them) and is at least \<open>d\<close> away from
  both end points. Distances are compared by their squares.
\<close>

definition insideSegment :: "real \<Rightarrow> point \<Rightarrow> point \<Rightarrow> point \<Rightarrow> bool" where
  "insideSegment d p1 p2 q =
     (let ux = fst p2 - fst p1; uy = snd p2 - snd p1;
          vx = fst q - fst p1; vy = snd q - snd p1;
          wx = fst q - fst p2; wy = snd q - snd p2
      in ux * vy - uy * vx = 0 \<and> 0 \<le> ux * vx + uy * vy \<and> ux * vx + uy * vy \<le> ux * ux + uy * uy
         \<and> d * d \<le> vx * vx + vy * vy \<and> d * d \<le> wx * wx + wy * wy)"

text \<open>The override array padded with zero entries up to the interior points of a path.\<close>

definition padOverrides :: "override list \<Rightarrow> path \<Rightarrow> override list" where
  "padOverrides ovs pts = ovs @ replicate (length pts - 2 - length ovs) (0, 0)"

text \<open>Follows the words of the specification: the connections (by index) that share a key.\<close>

definition keyGroup :: "BlockConnection list \<Rightarrow> string \<Rightarrow> nat list" where
  "keyGroup conns key = filter (\<lambda>i. pairKey (conns ! i) = key) [0..<length conns]"

section \<open>Auxiliary notions of the proofs\<close>

text \<open>The bodies of the two loops of the spread-offset computation, named.\<close>

definition pairStep :: "(string \<times> nat list) list \<Rightarrow> nat \<times> BlockConnection \<Rightarrow> (string \<times> nat list) list" where
  "pairStep m ic =
     (let key = pairKey (snd ic);
          m1 = (if map_of m key = None then AList.update key [] m else m)
      in AList.map_entry key (\<lambda>is. is @ [fst ic]) m1)"

definition putOffsets :: "(nat \<times> real) list \<Rightarrow> nat list \<Rightarrow> (nat \<times> real) list" where
  "putOffsets offsets indices =
     foldl (\<lambda>offsets (idx, v). AList.update idx v offsets) offsets (spreadOffsets indices)"


text \<open>
  The point the splitting loop of \<^verbatim>\<open>insertWaypointsIntoPath\<close> inserts for a located
  waypoint, as a function of the points array it reads.
\<close>

definition jogPoint :: "path \<Rightarrow> wpSeg \<Rightarrow> point" where
  "jogPoint points w =
     (let p1 = points ! ws_segIdx w;
          p2 = points ! (ws_segIdx w + 1)
      in if \<bar>snd p1 - snd p2\<bar> < 1
         then (max (min (fst p1) (fst p2) + 5) (min (max (fst p1) (fst p2) - 5) (fst (ws_wp w))), snd p1)
         else (fst p1, max (min (snd p1) (snd p2) + 5) (min (max (snd p1) (snd p2) - 5) (snd (ws_wp w)))))"

section \<open>Example inputs\<close>

definition mkBlock :: "string \<Rightarrow> string list \<Rightarrow> string list \<Rightarrow> string option \<Rightarrow> Block" where
  "mkBlock i ins outs hw = \<lparr>block_id = i, inputs = ins, outputs = outs, host_hardware = hw\<rparr>"

definition mkConn :: "string \<Rightarrow> string \<Rightarrow> string \<Rightarrow> BlockConnection" where
  "mkConn f t s = \<lparr>from_block = f, to_block = t, signal_name = s, signal_kind = Data\<rparr>"

definition ex_pinch :: wheelEvent where
  "ex_pinch = \<lparr>w_ctrlKey = True, w_deltaX = 0, w_deltaY = - 10, w_clientX = 63, w_clientY = 0,
                w_rect_left = 0, w_rect_top = 0\<rparr>"

definition ex_pinched :: viewerState where
  "ex_pinched = initialState\<lparr>zoom := 4953959590107546 / 2 ^ 52,
                              pan := (- (443323088319284 / 2 ^ 46), 0)\<rparr>"


definition ex_props :: viewerProps where
  "ex_props = \<lparr>p_designId = Some ''d1'',
                p_blocks = [mkBlock ''A'' [] [''VCC''] None, mkBlock ''B'' [''VCC''] [] None],
                p_connections = [mkConn ''A'' ''B'' ''VCC'']\<rparr>"

definition ex_parse :: "string \<Rightarrow> js_error + jsonValue" where
  "ex_parse raw =
     (if raw = ''saved''
      then Inr (Truthy \<lparr>sv_blockPositions = Some [], sv_pointOverrides = Some [],
                        sv_waypoints = Some [(0, [(300, 136)])]\<rparr>)
      else Inl SyntaxError)"

definition ex_persistence :: persistence where
  "ex_persistence =
     \<lparr>localStorage = \<lparr>items = [(''hardforge-layout-d1'', ''saved'')], readable = True, writable = True\<rparr>,
      layoutSaveTimer = Some (''d1'', \<lparr>ld_blockPositions = [], ld_pointOverrides = [],
                                      ld_waypoints = [(0, [(300, 136)])]\<rparr>),
      layoutSaved = False\<rparr>"



definition ex_collide :: "BlockConnection list" where
  "ex_collide = [mkConn ''a'' ''b<->c'' ''s1'', mkConn ''a'' ''b<->c'' ''s2'',
                 mkConn ''a'' ''b<->c'' ''s3'', mkConn ''a<->b'' ''c'' ''s4'']"

definition ex_diamond_blocks :: "Block list" where
  "ex_diamond_blocks =
     [mkBlock ''A'' [] [''s''] (Some ''hw''), mkBlock ''B'' [''s''] [''s''] (Some ''hw''),
      mkBlock ''C'' [''s''] [''s''] (Some ''hw''), mkBlock ''D'' [''s''] [] (Some ''hw'')]"

definition ex_diamond_conns :: "BlockConnection list" where
  "ex_diamond_conns =
     [mkConn ''A'' ''B'' ''s'', mkConn ''B'' ''C'' ''s'', mkConn ''C'' ''D'' ''s'',
      mkConn ''A'' ''D'' ''s'']"

definition ex_parse_object :: "string \<Rightarrow> js_error + jsonValue" where
  "ex_parse_object raw =
     (if raw = ''{}''
      then Inr (Truthy \<lparr>sv_blockPositions = None, sv_pointOverrides = None, sv_waypoints = None\<rparr>)
      else Inl SyntaxError)"

definition ex_storage_object :: storage where
  "ex_storage_object = \<lparr>items = [(''hardforge-layout-d1'', ''{}'')], readable = True, writable = True\<rparr>"

definition ex_jog_props :: viewerProps where
  "ex_jog_props = \<lparr>p_designId = Some ''d1'',
                    p_blocks = [mkBlock ''A'' [] [''VCC''] None, mkBlock ''B'' [''EN'', ''VCC''] [] None],
                    p_connections = [mkConn ''A'' ''B'' ''VCC'']\<rparr>"

definition ex_jog_layout :: "LayoutBlock list" where
  "ex_jog_layout =
     [\<lparr>lb_block = mkBlock ''A'' [] [''VCC''] None, lb_x = 80, lb_y = 90, lb_width = 180, lb_height = 68\<rparr>,
      \<lparr>lb_block = mkBlock ''B'' [''EN'', ''VCC''] [] None, lb_x = 500, lb_y = 90, lb_width = 180,
        lb_height = 88\<rparr>]"

definition ex_jog_base :: path where
  "ex_jog_base = [(260, 136), (380, 136), (380, 156), (500, 156)]"

definition ex_jog_expanded :: path where
  "ex_jog_expanded = [(260, 136), (380, 136), (380, 156), (450, 156), (450, 156), (500, 156)]"

definition ex_geom :: svgGeometry where
  "ex_geom = \<lparr>rect_left = 0, rect_top = 0, rect_width = 1, rect_height = 1, vb_width = 1, vb_height = 1\<rparr>"

definition ex_click :: mouseEvent where
  "ex_click = \<lparr>clientX = 300, clientY = 136\<rparr>"

definition ex_state_wp :: viewerState where
  "ex_state_wp = initialState\<lparr>connWaypoints := [(0, [(450, 156)])],
                              connPointOverrides := [(0, [(0, 10), (0, 10), (0, 0), (0, 0)])]\<rparr>"

definition ex_triple :: "BlockConnection list" where
  "ex_triple = [mkConn ''A'' ''B'' ''s1'', mkConn ''B'' ''A'' ''s2'', mkConn ''C'' ''D'' ''s3'',
                mkConn ''A'' ''B'' ''s4'']"

definition ex_cycle_blocks :: "Block list" where
  "ex_cycle_blocks = [mkBlock ''P'' [''s''] [''s''] (Some ''hw''), mkBlock ''Q'' [''s''] [''s''] (Some ''hw''),
                      mkBlock ''R'' [] [] (Some ''hw'')]"

definition ex_cycle_conns :: "BlockConnection list" where
  "ex_cycle_conns = [mkConn ''P'' ''Q'' ''s'', mkConn ''Q'' ''P'' ''s'']"

definition ex_storage_empty :: storage where
  "ex_storage_empty = \<lparr>items = [], readable = True, writable = True\<rparr>"

definition ex_corner :: path where
  "ex_corner = [(0, 0), (100, 0), (100, 100)]"
section \<open>Properties of port resolution\<close>

lemma indexOf_absent: "v \<notin> set xs \<Longrightarrow> indexOf xs v = -1"
  by (induction xs) auto

lemma indexOf_present:
  "v \<in> set xs \<Longrightarrow>
     \<exists>i. i < length xs \<and> xs ! i = v \<and> (\<forall>j<i. xs ! j \<noteq> v) \<and> indexOf xs v = int i"
proof (induction xs)
  case Nil
  then show ?case by simp
next
  case (Cons a xs)
  show ?case
  proof (cases "a = v")
    case True
    then show ?thesis by (intro exI[of _ 0]) simp
  next
    case False
    with Cons.prems have "v \<in> set xs" by simp
    from Cons.IH[OF this] obtain i where
      i: "i < length xs" "xs ! i = v" "\<forall>j<i. xs ! j \<noteq> v" "indexOf xs v = int i"
      by blast
    have "\<forall>j<Suc i. (a # xs) ! j \<noteq> v"
      using False i(3) by (auto simp: less_Suc_eq_0_disj)
    with i False show ?thesis
      by (intro exI[of _ "Suc i"]) (simp add: Let_def)
  qed
qed

text \<open>
  C9. Port resolution is total: \<open>getPortPosition\<close> has no failing branch (its result
  type carries no error, whatever the port list, the empty one included), and it returns
  the coordinates of the row of the first index at which the port name occurs in the
  block's input (output) list, and those of row 0 when the name does not occur. Inputs
  sit on the left edge of the block, outputs on the right edge.
\<close>

theorem getPortPosition_named_index_or_zero:
  fixes lb :: LayoutBlock and portName :: string and sd :: side
  defines "ports \<equiv> (if sd = Input then inputs (lb_block lb) else outputs (lb_block lb))"
  defines "edge \<equiv> (if sd = Input then lb_x lb else lb_x lb + lb_width lb)"
  shows "(portName \<in> set ports \<longrightarrow>
            (\<exists>i<length ports. ports ! i = portName \<and> (\<forall>j<i. ports ! j \<noteq> portName) \<and>
               getPortPosition lb portName sd = (edge, lb_y lb + 36 + 10 + real i * 20))) \<and>
         (portName \<notin> set ports \<longrightarrow>
            getPortPosition lb portName sd = (edge, lb_y lb + 36 + 10))"
proof (intro conjI impI)
  assume "portName \<in> set ports"
  from indexOf_present[OF this] obtain i where
    i: "i < length ports" "ports ! i = portName" "\<forall>j<i. ports ! j \<noteq> portName"
       "indexOf ports portName = int i"
    by blast
  have "getPortPosition lb portName sd = (edge, lb_y lb + 36 + 10 + real i * 20)"
    using i(4) unfolding getPortPosition_def ports_def edge_def
    by (simp add: Let_def BLOCK_HEADER_def PORT_ROW_def)
  with i show "\<exists>i<length ports. ports ! i = portName \<and> (\<forall>j<i. ports ! j \<noteq> portName) \<and>
      getPortPosition lb portName sd = (edge, lb_y lb + 36 + 10 + real i * 20)"
    by blast
next
  assume "portName \<notin> set ports"
  from indexOf_absent[OF this]
  show "getPortPosition lb portName sd = (edge, lb_y lb + 36 + 10)"
    unfolding getPortPosition_def ports_def edge_def
    by (simp add: Let_def BLOCK_HEADER_def PORT_ROW_def)
qed

theorem getPortPosition_named_index_or_zero_witness:
  "''GND'' \<in> set [''VCC'', ''GND''] \<and>
   getPortPosition \<lparr>lb_block = mkBlock ''B'' [''VCC'', ''GND''] [] None,
                     lb_x = 100, lb_y = 50, lb_width = 180, lb_height = 88\<rparr> ''GND'' Input
     = (100, 116) \<and>
   ''CLK'' \<notin> set [''VCC'', ''GND''] \<and>
   getPortPosition \<lparr>lb_block = mkBlock ''B'' [''VCC'', ''GND''] [] None,
                     lb_x = 100, lb_y = 50, lb_width = 180, lb_height = 88\<rparr> ''CLK'' Input
     = (100, 96)"
  using getPortPosition_named_index_or_zero
    [of "''GND''" Input "\<lparr>lb_block = mkBlock ''B'' [''VCC'', ''GND''] [] None,
                     lb_x = 100, lb_y = 50, lb_width = 180, lb_height = 88\<rparr>"]
    getPortPosition_named_index_or_zero
    [of "''CLK''" Input "\<lparr>lb_block = mkBlock ''B'' [''VCC'', ''GND''] [] None,
                     lb_x = 100, lb_y = 50, lb_width = 180, lb_height = 88\<rparr>"]
  by (auto simp: mkBlock_def less_Suc_eq)

section \<open>Rounding to double precision\<close>

text \<open>The exponent found by \<open>ilog2\<close> is the binary exponent of its argument.\<close>

lemma bits_bounds: "0 < n \<Longrightarrow> 2 ^ (bits n - 1) \<le> n \<and> n < 2 ^ bits n"
proof (induction n rule: bits.induct)
  case (1 n)
  show ?case
  proof (cases "n div 2 = 0")
    case True
    with 1 have "n = 1" by (simp add: div_eq_0_iff)
    then show ?thesis by (simp add: bits.simps[of "Suc 0"] bits.simps[of 0])
  next
    case False
    then have pos: "0 < n div 2" by simp
    from 1 have n0: "n \<noteq> 0" by simp
    from 1(1)[OF n0 pos] have ih: "2 ^ (bits (n div 2) - 1) \<le> n div 2" "n div 2 < 2 ^ bits (n div 2)"
      by simp_all
    have b: "bits n = Suc (bits (n div 2))" using n0 by (simp add: bits.simps[of n])
    have bp: "0 < bits (n div 2)" using pos by (simp add: bits.simps[of "n div 2"])
    have "2 ^ (bits n - 1) = 2 * 2 ^ (bits (n div 2) - 1)"
      using bp by (simp add: b power_Suc[symmetric] del: power_Suc)
    also have "\<dots> \<le> 2 * (n div 2)" using ih(1) by simp
    also have "\<dots> \<le> n" by simp
    finally have lo: "2 ^ (bits n - 1) \<le> n" .
    have "n div 2 + 1 \<le> 2 ^ bits (n div 2)" using ih(2) by simp
    then have "2 * (n div 2) + 2 \<le> 2 ^ bits n" by (simp add: b)
    moreover have "n < 2 * (n div 2) + 2" by presburger
    ultimately have "n < 2 ^ bits n" by simp
    with lo show ?thesis by simp
  qed
qed

lemma bits_pos: "0 < n \<Longrightarrow> 0 < bits n"
  by (simp add: bits.simps[of n])

lemma ilog2_bounds:
  assumes "0 < x"
  shows "2 powi (ilog2 x) \<le> x" and "x < 2 powi (ilog2 x + 1)"
proof -
  have "2 powi (ilog2 x) \<le> x \<and> x < 2 powi (ilog2 x + 1)"
  proof (cases "1 \<le> x")
    case True
    define n where "n = nat \<lfloor>x\<rfloor>"
    define k where "k = bits n"
    have rn: "real n = of_int \<lfloor>x\<rfloor>" using True by (simp add: n_def)
    have n: "0 < n" "real n \<le> x" "x < real n + 1"
      using True unfolding rn by (simp add: n_def) linarith+
    from bits_bounds[OF n(1)] bits_pos[OF n(1)]
    have b: "2 ^ (k - 1) \<le> n" "n < 2 ^ k" "0 < k" by (simp_all add: k_def)
    have e: "ilog2 x = int k - 1" using True by (simp add: ilog2_def n_def k_def)
    have e1: "ilog2 x = int (k - 1)" using b(3) by (simp add: e)
    have e2: "ilog2 x + 1 = int k" by (simp add: e)
    have "(2::real) ^ (k - 1) \<le> real n"
      using b(1) by (metis of_nat_le_iff of_nat_numeral of_nat_power)
    then have "(2::real) ^ (k - 1) \<le> x" using n(2) by linarith
    then have lo: "2 powi (ilog2 x) \<le> x" unfolding e1 by simp
    have "n + 1 \<le> 2 ^ k" using b(2) by simp
    then have "real (n + 1) \<le> 2 ^ k"
      by (metis of_nat_le_iff of_nat_numeral of_nat_power)
    then have "real n + 1 \<le> 2 ^ k" by simp
    then have "x < 2 ^ k" using n(3) by linarith
    then have hi: "x < 2 powi (ilog2 x + 1)" unfolding e2 by simp
    from lo hi show ?thesis by simp
  next
    case False
    define y where "y = 1 / x"
    define n where "n = nat (\<lceil>y\<rceil> - 1)"
    define k where "k = bits n"
    have y1: "1 < y" using False assms by (simp add: y_def)
    then have c: "2 \<le> \<lceil>y\<rceil>" by linarith
    have rn: "real n = of_int \<lceil>y\<rceil> - 1" using c by (simp add: n_def)
    have n: "0 < n" "real n < y" "y \<le> real n + 1"
      using c unfolding rn by (simp add: n_def) linarith+
    from bits_bounds[OF n(1)] bits_pos[OF n(1)]
    have b: "2 ^ (k - 1) \<le> n" "n < 2 ^ k" "0 < k" by (simp_all add: k_def)
    have e: "ilog2 x = - int k" using False by (simp add: ilog2_def n_def k_def y_def)
    have e2: "ilog2 x + 1 = - int (k - 1)" using b(3) by (simp add: e)
    have "n + 1 \<le> 2 ^ k" using b(2) by simp
    then have "real (n + 1) \<le> 2 ^ k"
      by (metis of_nat_le_iff of_nat_numeral of_nat_power)
    then have "real n + 1 \<le> 2 ^ k" by simp
    then have "y \<le> 2 ^ k" using n(3) by linarith
    then have "1 / x \<le> 2 ^ k" by (simp add: y_def)
    then have "1 \<le> 2 ^ k * x" using assms by (simp add: field_simps)
    then have "inverse (2 ^ k) \<le> x" by (simp add: field_simps)
    then have lo: "2 powi (ilog2 x) \<le> x" unfolding e by (simp add: power_int_minus)
    have "(2::real) ^ (k - 1) \<le> real n"
      using b(1) by (metis of_nat_le_iff of_nat_numeral of_nat_power)
    then have "2 ^ (k - 1) < y" using n(2) by linarith
    then have "2 ^ (k - 1) < 1 / x" by (simp add: y_def)
    then have "2 ^ (k - 1) * x < 1" using assms by (simp add: field_simps)
    then have "x < inverse (2 ^ (k - 1))" by (simp add: field_simps)
    then have hi: "x < 2 powi (ilog2 x + 1)" unfolding e2 by (simp add: power_int_minus)
    from lo hi show ?thesis by simp
  qed
  then show "2 powi (ilog2 x) \<le> x" and "x < 2 powi (ilog2 x + 1)" by simp_all
qed

lemma ilog2_unique:
  assumes "2 powi e \<le> x" and "x < 2 powi (e + 1)"
  shows "ilog2 x = e"
proof -
  have pos: "0 < x" using assms(1) by (rule less_le_trans[rotated]) simp
  note b = ilog2_bounds[OF pos]
  have 1: "e < ilog2 x + 1"
  proof (rule ccontr)
    assume "\<not> e < ilog2 x + 1"
    then have "(2::real) powi (ilog2 x + 1) \<le> 2 powi e"
      by (intro power_int_increasing) simp_all
    with assms(1) b(2) show False by simp
  qed
  have 2: "ilog2 x < e + 1"
  proof (rule ccontr)
    assume "\<not> ilog2 x < e + 1"
    then have "(2::real) powi (e + 1) \<le> 2 powi (ilog2 x)"
      by (intro power_int_increasing) simp_all
    with assms(2) b(1) show False by simp
  qed
  from 1 2 show ?thesis by simp
qed

text \<open>
  Rounding moves a number by at most half the spacing of the doubles around it: by at
  most \<open>u53\<close> times its size in the normal range, and by at most \<open>eta\<close> below it.
\<close>

lemma roundEven_error: "\<bar>of_int (roundEven q) - q\<bar> \<le> 1 / 2"
  unfolding roundEven_def Let_def by (auto simp: abs_if) linarith+

lemma u53_pos: "0 < u53" and eta_pos: "0 < eta"
  by (simp_all add: u53_def eta_def)

lemma round_unit_error:
  fixes x u :: real
  assumes "0 < u"
  shows "\<bar>of_int (roundEven (x / u)) * u - x\<bar> \<le> u / 2"
proof -
  have "of_int (roundEven (x / u)) * u - x = (of_int (roundEven (x / u)) - x / u) * u"
    using assms by (simp add: algebra_simps)
  then have "\<bar>of_int (roundEven (x / u)) * u - x\<bar> = \<bar>of_int (roundEven (x / u)) - x / u\<bar> * u"
    using assms by (simp add: abs_mult)
  also have "\<dots> \<le> (1 / 2) * u"
    using roundEven_error[of "x / u"] assms by (intro mult_right_mono) simp_all
  finally show ?thesis by simp
qed

lemma fl_Some:
  assumes "fl x = Some y" and "x \<noteq> 0"
  shows "y = of_int (roundEven (x / 2 powi (max (ilog2 \<bar>x\<bar>) (- 1022) - 52)))
               * 2 powi (max (ilog2 \<bar>x\<bar>) (- 1022) - 52)"
    and "\<bar>y\<bar> < 2 powi 1024"
  using assms by (simp_all add: fl_def Let_def split: if_splits)

lemma half_unit:
  "(2::real) powi (e - 52) / 2 = 2 powi e * 2 powi (- 53)"
proof -
  have "(2::real) powi (e - 52) = 2 powi e * 2 powi (- 52)"
    using power_int_add[of "2::real" e "- 52"] by simp
  moreover have "(2::real) powi (- 52) / 2 = 2 powi (- 53)"
    by (simp add: power_int_minus)
  ultimately show ?thesis by simp
qed

lemma unit_error_bound:
  fixes x :: real
  assumes "x \<noteq> 0"
  shows "2 powi (max (ilog2 \<bar>x\<bar>) (- 1022) - 52) / 2 \<le> u53 * \<bar>x\<bar> + eta"
proof (cases "- 1022 \<le> ilog2 \<bar>x\<bar>")
  case True
  then have e: "max (ilog2 \<bar>x\<bar>) (- 1022) = ilog2 \<bar>x\<bar>" by simp
  have "2 powi (ilog2 \<bar>x\<bar>) \<le> \<bar>x\<bar>"
    using assms by (intro ilog2_bounds) simp
  then have "2 powi (ilog2 \<bar>x\<bar>) * u53 \<le> \<bar>x\<bar> * u53"
    using u53_pos by (intro mult_right_mono) simp_all
  then show ?thesis
    unfolding e half_unit using eta_pos by (simp add: u53_def mult.commute)
next
  case False
  then have e: "max (ilog2 \<bar>x\<bar>) (- 1022) = - 1022" by simp
  have "(2::real) powi (- 1022 - 52) / 2 = eta"
    unfolding half_unit eta_def using power_int_add[of "2::real" "- 1022" "- 53"] by simp
  moreover have "0 \<le> u53 * \<bar>x\<bar>" using u53_pos by simp
  ultimately show ?thesis unfolding e by simp
qed

lemma fl_error:
  assumes "fl x = Some y"
  shows "\<bar>y - x\<bar> \<le> u53 * \<bar>x\<bar> + eta"
proof (cases "x = 0")
  case True
  with assms eta_pos show ?thesis by (simp add: fl_def)
next
  case False
  let ?u = "(2::real) powi (max (ilog2 \<bar>x\<bar>) (- 1022) - 52)"
  have "\<bar>y - x\<bar> \<le> ?u / 2"
    unfolding fl_Some(1)[OF assms False] by (rule round_unit_error) simp
  also have "\<dots> \<le> u53 * \<bar>x\<bar> + eta" by (rule unit_error_bound[OF False])
  finally show ?thesis .
qed

text \<open>No overflow below \<open>2 ^ 1023\<close>.\<close>

lemma fl_finite:
  assumes "\<bar>x\<bar> \<le> 2 powi 1023"
  shows "\<exists>y. fl x = Some y"
proof (cases "x = 0")
  case True
  then show ?thesis by (simp add: fl_def)
next
  case False
  let ?u = "(2::real) powi (max (ilog2 \<bar>x\<bar>) (- 1022) - 52)"
  let ?y = "of_int (roundEven (x / ?u)) * ?u"
  have "\<bar>?y - x\<bar> \<le> ?u / 2" by (rule round_unit_error) simp
  also have "\<dots> \<le> u53 * \<bar>x\<bar> + eta" by (rule unit_error_bound[OF False])
  finally have "\<bar>?y\<bar> \<le> \<bar>x\<bar> + u53 * \<bar>x\<bar> + eta" by linarith
  also have "\<dots> \<le> 2 powi 1023 + u53 * 2 powi 1023 + eta"
    using assms u53_pos by (simp add: add_mono mult_left_mono)
  also have "\<dots> < 2 powi 1024"
    by (simp add: u53_def eta_def power_int_minus field_simps)
  finally have "\<not> 2 powi 1024 \<le> \<bar>?y\<bar>" by simp
  then show ?thesis using False by (simp add: fl_def Let_def)
qed

text \<open>The rounding of a number whose binary exponent is known.\<close>

lemma fl_eval:
  assumes "2 powi e \<le> \<bar>x\<bar>" and "\<bar>x\<bar> < 2 powi (e + 1)" and "- 1022 \<le> e" and "e \<le> 1022"
  shows "fl x = Some (of_int (roundEven (x / 2 powi (e - 52))) * 2 powi (e - 52))"
proof -
  have nz: "x \<noteq> 0"
  proof
    assume "x = 0"
    with assms(1) have "(2::real) powi e \<le> 0" by simp
    moreover have "(0::real) < 2 powi e" by simp
    ultimately show False by linarith
  qed
  have e: "max (ilog2 \<bar>x\<bar>) (- 1022) = e"
    using ilog2_unique[OF assms(1,2)] assms(3) by simp
  have "\<bar>x\<bar> \<le> 2 powi 1023"
  proof -
    have "(2::real) powi (e + 1) \<le> 2 powi 1023"
      using assms(4) by (intro power_int_increasing) simp_all
    with assms(2) show ?thesis by simp
  qed
  from fl_finite[OF this] obtain y where y: "fl x = Some y" by blast
  from fl_Some(1)[OF y nz] y show ?thesis by (simp add: e)
qed


text \<open>The doubles denoted by the literals \<^verbatim>\<open>0.01\<close> and \<^verbatim>\<open>0.2\<close>.\<close>

lemma lit_001: "lit 0.01 = 5764607523034235 / 2 ^ 59"
  using fl_eval[of "- 7" "0.01"] by (simp add: lit_def roundEven_def Let_def power_int_minus)

lemma lit_02: "lit 0.2 = 3602879701896397 / 2 ^ 54"
  using fl_eval[of "- 3" "0.2"] by (simp add: lit_def roundEven_def Let_def power_int_minus)

lemma fl_zero: "fl 0 = Some 0"
  by (simp add: fl_def)

lemma u53_small: "9 * u53 \<le> 1"
  by (simp add: u53_def power_int_minus)

lemma eta_small: "eta \<le> 1 / 128"
proof -
  have "(2::real) powi (- 1075) \<le> 2 powi (- 7)"
    by (intro power_int_increasing) simp_all
  then show ?thesis by (simp add: eta_def power_int_minus)
qed

lemma fl_ex:
  assumes "\<bar>x\<bar> \<le> B" and "1 \<le> B" and "B \<le> 2 powi 1023"
  shows "\<exists>y. fl x = Some y \<and> \<bar>y\<bar> \<le> 2 * B"
proof -
  from assms(1,3) have "\<bar>x\<bar> \<le> 2 powi 1023" by linarith
  from fl_finite[OF this] obtain y where y: "fl x = Some y" by blast
  have "u53 * \<bar>x\<bar> \<le> (1 / 9) * B"
    using u53_small u53_pos assms(1) by (intro mult_mono) simp_all
  moreover have "\<bar>y - x\<bar> \<le> u53 * \<bar>x\<bar> + eta" using y by (rule fl_error)
  ultimately have "\<bar>y\<bar> \<le> 2 * B" using assms(1,2) eta_small by linarith
  with y show ?thesis by blast
qed

section \<open>Zoom anchored at the cursor\<close>

text \<open>
  The new pan is computed from the content coordinate by four rounded operations. The
  content coordinate read back from the new pan differs from the one before by the four
  rounding errors, each scaled by at most 5 (the zoom factors are at least \<open>1 / 5\<close>).
\<close>

lemma scaled_error:
  fixes x y k :: real
  assumes "\<bar>y - x\<bar> \<le> u53 * \<bar>x\<bar> + eta" and "1 / 5 \<le> k"
  shows "\<bar>y / k - x / k\<bar> \<le> u53 * \<bar>x / k\<bar> + 5 * eta"
proof -
  have kp: "0 < k" using assms(2) by simp
  have ik: "1 / k \<le> 5" using assms(2) kp by (simp add: field_simps)
  have "\<bar>y / k - x / k\<bar> = \<bar>y - x\<bar> / k"
    using kp by (simp add: diff_divide_distrib[symmetric] abs_divide del: diff_divide_distrib)
  also have "\<dots> \<le> (u53 * \<bar>x\<bar> + eta) / k"
    using assms(1) kp by (intro divide_right_mono) simp_all
  also have "\<dots> = u53 * \<bar>x / k\<bar> + eta * (1 / k)"
    using kp by (simp add: add_divide_distrib abs_divide)
  also have "\<dots> \<le> u53 * \<bar>x / k\<bar> + eta * 5"
    using ik eta_pos by (intro add_left_mono mult_left_mono) simp_all
  finally show ?thesis by simp
qed

lemma anchor_error:
  fixes mouse p Z N t c m P' :: real
  assumes t: "fsub mouse p = Some t" and c: "fdiv t Z = Some c"
    and m: "fmul c N = Some m" and P: "fsub mouse m = Some P'"
    and Z: "1 / 5 \<le> Z" and N: "1 / 5 \<le> N"
  shows "\<bar>(mouse - P') / N - (mouse - p) / Z\<bar>
           \<le> 9 * u53 * (\<bar>(mouse - p) / Z\<bar> + \<bar>mouse\<bar> / N) + 25 * eta"
proof -
  define A where "A = \<bar>(mouse - p) / Z\<bar>"
  define M where "M = \<bar>mouse\<bar> / N"
  define d1 where "d1 = t / Z - (mouse - p) / Z"
  define d2 where "d2 = c - t / Z"
  define d3 where "d3 = m / N - c"
  define d4 where "d4 = P' / N - (mouse - m) / N"
  note u = u53_pos u53_small
  note h = eta_pos
  have Zp: "0 < Z" and Np: "0 < N" using Z N by simp_all
  have A0: "0 \<le> A" and M0: "0 \<le> M" using Np by (simp_all add: A_def M_def)
  have "fl (mouse - p) = Some t" using t by (simp add: fsub_def)
  then have e1: "\<bar>t - (mouse - p)\<bar> \<le> u53 * \<bar>mouse - p\<bar> + eta"
    by (rule fl_error)
  have "fl (t / Z) = Some c" using c Zp by (simp add: fdiv_def)
  then have e2: "\<bar>c - t / Z\<bar> \<le> u53 * \<bar>t / Z\<bar> + eta"
    by (rule fl_error)
  have "fl (c * N) = Some m" using m by (simp add: fmul_def)
  then have e3: "\<bar>m - c * N\<bar> \<le> u53 * \<bar>c * N\<bar> + eta"
    by (rule fl_error)
  have "fl (mouse - m) = Some P'" using P by (simp add: fsub_def)
  then have e4: "\<bar>P' - (mouse - m)\<bar> \<le> u53 * \<bar>mouse - m\<bar> + eta"
    by (rule fl_error)
  have b1: "\<bar>d1\<bar> \<le> u53 * A + 5 * eta"
    unfolding d1_def A_def by (rule scaled_error[OF e1 Z])
  have tZ: "\<bar>t / Z\<bar> \<le> A + \<bar>d1\<bar>"
    unfolding d1_def A_def by linarith
  have uu: "u53 * (u53 * A) \<le> u53 * A"
    using u A0 by (intro mult_left_le_one_le) (simp_all add: mult_nonneg_nonneg)
  have uh: "u53 * (5 * eta) \<le> eta"
  proof -
    have "(5 * u53) * eta \<le> 1 * eta"
      using u h by (intro mult_right_mono) simp_all
    then show ?thesis by (simp add: algebra_simps)
  qed
  have b2: "\<bar>d2\<bar> \<le> 2 * (u53 * A) + 2 * eta"
  proof -
    have "u53 * \<bar>t / Z\<bar> \<le> u53 * (A + (u53 * A + 5 * eta))"
      using tZ b1 u(1) by (intro mult_left_mono) simp_all
    also have "\<dots> = u53 * A + u53 * (u53 * A) + u53 * (5 * eta)"
      by (simp add: algebra_simps)
    also have "\<dots> \<le> u53 * A + u53 * A + eta"
      using uu uh by linarith
    finally show ?thesis using e2 unfolding d2_def by linarith
  qed
  have cb: "\<bar>c\<bar> \<le> A + 3 * (u53 * A) + 7 * eta"
    using tZ b1 b2 unfolding d2_def by linarith
  have ucb: "u53 * \<bar>c\<bar> \<le> 2 * (u53 * A) + eta"
  proof -
    have "u53 * \<bar>c\<bar> \<le> u53 * (A + 3 * (u53 * A) + 7 * eta)"
      using cb u(1) by (intro mult_left_mono) simp_all
    also have "\<dots> = u53 * A + (3 * u53) * (u53 * A) + (7 * u53) * eta"
      by (simp add: algebra_simps)
    also have "\<dots> \<le> u53 * A + 1 * (u53 * A) + 1 * eta"
      using u h A0 by (intro add_mono mult_right_mono) (simp_all add: mult_nonneg_nonneg)
    finally show ?thesis by (simp add: algebra_simps)
  qed
  have b3: "\<bar>d3\<bar> \<le> 2 * (u53 * A) + 6 * eta"
  proof -
    have "\<bar>m / N - c * N / N\<bar> \<le> u53 * \<bar>c * N / N\<bar> + 5 * eta"
      by (rule scaled_error[OF e3 N])
    then have "\<bar>d3\<bar> \<le> u53 * \<bar>c\<bar> + 5 * eta"
      using Np by (simp add: d3_def)
    with ucb show ?thesis by linarith
  qed
  have b4: "\<bar>d4\<bar> \<le> u53 * M + 4 * (u53 * A) + 12 * eta"
  proof -
    have "\<bar>d4\<bar> \<le> u53 * \<bar>(mouse - m) / N\<bar> + 5 * eta"
      unfolding d4_def by (rule scaled_error[OF e4 N])
    moreover have "\<bar>(mouse - m) / N\<bar> \<le> M + (\<bar>c\<bar> + \<bar>d3\<bar>)"
    proof -
      have "(mouse - m) / N = mouse / N - (c + d3)"
        by (simp add: d3_def diff_divide_distrib)
      moreover have "\<bar>mouse / N\<bar> = M" using Np by (simp add: M_def)
      ultimately show ?thesis by linarith
    qed
    then have "u53 * \<bar>(mouse - m) / N\<bar> \<le> u53 * (M + (\<bar>c\<bar> + \<bar>d3\<bar>))"
      using u(1) by (intro mult_left_mono) simp_all
    moreover have "u53 * (M + (\<bar>c\<bar> + \<bar>d3\<bar>)) = u53 * M + u53 * \<bar>c\<bar> + u53 * \<bar>d3\<bar>"
      by (simp add: algebra_simps)
    moreover have "u53 * \<bar>d3\<bar> \<le> \<bar>d3\<bar>"
      using u by (intro mult_left_le_one_le) simp_all
    ultimately show ?thesis using ucb b3 by linarith
  qed
  have "(mouse - P') / N - (mouse - p) / Z = d1 + d2 + d3 - d4"
    by (simp add: d1_def d2_def d3_def d4_def diff_divide_distrib)
  then have "\<bar>(mouse - P') / N - (mouse - p) / Z\<bar> \<le> \<bar>d1\<bar> + \<bar>d2\<bar> + \<bar>d3\<bar> + \<bar>d4\<bar>"
    by linarith
  also have "\<dots> \<le> 9 * (u53 * A) + u53 * M + 25 * eta"
    using b1 b2 b3 b4 by linarith
  also have "\<dots> \<le> 9 * (u53 * A) + 9 * (u53 * M) + 25 * eta"
    using u(1) M0 by (simp add: mult_nonneg_nonneg)
  finally show ?thesis by (simp add: A_def M_def algebra_simps)
qed

lemma lit_001_le: "\<bar>lit 0.01\<bar> \<le> 1"
  using lit_001 by simp

lemma lit_02_ge: "1 / 5 \<le> lit 0.2" and lit_02_le: "lit 0.2 \<le> 5"
  using lit_02 by simp_all

lemma newZoom_range:
  "1 / 5 \<le> min (max z (lit 0.2)) 5" "min (max z (lit 0.2)) 5 \<le> 5"
  using lit_02_ge lit_02_le by (simp_all add: min_def max_def)

lemma anchor_finite:
  fixes a b p Z N K :: real
  assumes a: "\<bar>a\<bar> \<le> K" and b: "\<bar>b\<bar> \<le> K" and p: "\<bar>p\<bar> \<le> K"
    and Z: "1 / 5 \<le> Z" and N: "1 / 5 \<le> N" "N \<le> 5"
    and K: "1 \<le> K" "1004 * K \<le> 2 powi 1023"
  shows "\<exists>mouse off content zoomed newPan.
           fsub a b = Some mouse \<and> fsub mouse p = Some off \<and> fdiv off Z = Some content \<and>
           fmul content N = Some zoomed \<and> fsub mouse zoomed = Some newPan"
proof -
  have Zp: "0 < Z" "Z \<noteq> 0" and iZ: "1 / Z \<le> 5" using Z by (simp_all add: field_simps)
  have "\<bar>a - b\<bar> \<le> 2 * K" using a b by linarith
  from fl_ex[OF this] K obtain mouse where mouse: "fl (a - b) = Some mouse" "\<bar>mouse\<bar> \<le> 4 * K"
    by auto
  have "\<bar>mouse - p\<bar> \<le> 5 * K" using mouse(2) p by linarith
  from fl_ex[OF this] K obtain off where off: "fl (mouse - p) = Some off" "\<bar>off\<bar> \<le> 10 * K"
    by auto
  have "\<bar>off / Z\<bar> = \<bar>off\<bar> * (1 / Z)" using Zp by (simp add: abs_divide)
  also have "\<dots> \<le> (10 * K) * 5"
    using off(2) iZ Zp by (intro mult_mono) simp_all
  finally have "\<bar>off / Z\<bar> \<le> 50 * K" by simp
  from fl_ex[OF this] K obtain content where content: "fl (off / Z) = Some content" "\<bar>content\<bar> \<le> 100 * K"
    by auto
  have "\<bar>content * N\<bar> = \<bar>content\<bar> * N" using N(1) by (simp add: abs_mult)
  also have "\<dots> \<le> (100 * K) * 5"
    using content(2) N by (intro mult_mono) simp_all
  finally have "\<bar>content * N\<bar> \<le> 500 * K" by simp
  from fl_ex[OF this] K obtain zoomed where zoomed: "fl (content * N) = Some zoomed" "\<bar>zoomed\<bar> \<le> 1000 * K"
    by auto
  have "\<bar>mouse - zoomed\<bar> \<le> 1004 * K" using mouse(2) zoomed(2) by linarith
  from fl_ex[OF this] K obtain newPan where newPan: "fl (mouse - zoomed) = Some newPan"
    by auto
  from mouse(1) off(1) content(1) zoomed(1) newPan Zp(2) show ?thesis
    by (simp add: fsub_def fdiv_def fmul_def)
qed

lemma scaled_finite:
  fixes d Z K :: real
  assumes d: "\<bar>d\<bar> \<le> K" and Z: "\<bar>Z\<bar> \<le> 5" and K: "1 \<le> K" "1004 * K \<le> 2 powi 1023"
  shows "\<exists>delta factor scaled.
           fmul (- d) (lit 0.01) = Some delta \<and> fadd 1 delta = Some factor \<and>
           fmul Z factor = Some scaled"
proof -
  have "\<bar>- d * lit 0.01\<bar> = \<bar>d\<bar> * \<bar>lit 0.01\<bar>" by (simp add: abs_mult)
  also have "\<dots> \<le> K * 1" using d lit_001_le by (intro mult_mono) simp_all
  finally have "\<bar>- d * lit 0.01\<bar> \<le> K" by simp
  from fl_ex[OF this] K obtain delta where delta: "fl (- d * lit 0.01) = Some delta" "\<bar>delta\<bar> \<le> 2 * K"
    by auto
  have "\<bar>1 + delta\<bar> \<le> 3 * K" using delta(2) K(1) by linarith
  from fl_ex[OF this] K obtain factor where factor: "fl (1 + delta) = Some factor" "\<bar>factor\<bar> \<le> 6 * K"
    by auto
  have "\<bar>Z * factor\<bar> = \<bar>Z\<bar> * \<bar>factor\<bar>" by (simp add: abs_mult)
  also have "\<dots> \<le> 5 * (6 * K)" using Z factor(2) by (intro mult_mono) simp_all
  finally have "\<bar>Z * factor\<bar> \<le> 30 * K" by simp
  from fl_ex[OF this] K obtain scaled where "fl (Z * factor) = Some scaled"
    by auto
  with delta(1) factor(1) show ?thesis by (simp add: fmul_def fadd_def)
qed

text \<open>
  For a state whose zoom factor lies in \<open>[0.2, 5]\<close> and numbers of size at most
  \<open>2 ^ 1000\<close>, every number the handler computes is finite, and the content-space
  coordinate under the pointer is kept up to the rounding errors.
\<close>

lemma onWheel_finite_anchored:
  fixes e :: wheelEvent and st :: viewerState
  assumes ctrl: "w_ctrlKey e"
    and zoom: "0.2 \<le> zoom st" "zoom st \<le> 5"
    and finite: "\<bar>w_deltaY e\<bar> \<le> 2 ^ 1000"
      "\<bar>w_clientX e\<bar> \<le> 2 ^ 1000" "\<bar>w_rect_left e\<bar> \<le> 2 ^ 1000" "\<bar>fst (pan st)\<bar> \<le> 2 ^ 1000"
      "\<bar>w_clientY e\<bar> \<le> 2 ^ 1000" "\<bar>w_rect_top e\<bar> \<le> 2 ^ 1000" "\<bar>snd (pan st)\<bar> \<le> 2 ^ 1000"
  shows "\<exists>st' mouseX mouseY.
           onWheel e st = Some st' \<and>
           fsub (w_clientX e) (w_rect_left e) = Some mouseX \<and>
           fsub (w_clientY e) (w_rect_top e) = Some mouseY \<and>
           0.2 \<le> zoom st' \<and> zoom st' \<le> 5 \<and>
           \<bar>(mouseX - fst (pan st')) / zoom st' - (mouseX - fst (pan st)) / zoom st\<bar>
             \<le> 9 * u53 * (\<bar>(mouseX - fst (pan st)) / zoom st\<bar> + \<bar>mouseX\<bar> / zoom st') + 25 * eta \<and>
           \<bar>(mouseY - snd (pan st')) / zoom st' - (mouseY - snd (pan st)) / zoom st\<bar>
             \<le> 9 * u53 * (\<bar>(mouseY - snd (pan st)) / zoom st\<bar> + \<bar>mouseY\<bar> / zoom st') + 25 * eta"
proof -
  define K :: real where "K = 2 ^ 1000"
  have K: "1 \<le> K" "1004 * K \<le> 2 powi 1023" by (simp_all add: K_def)
  have Z: "1 / 5 \<le> zoom st" "\<bar>zoom st\<bar> \<le> 5" using zoom by simp_all
  from scaled_finite[OF finite(1)[folded K_def] Z(2) K]
  obtain delta factor scaled where z:
    "fmul (- w_deltaY e) (lit 0.01) = Some delta" "fadd 1 delta = Some factor"
    "fmul (zoom st) factor = Some scaled"
    by blast
  define N where "N = min (max scaled (lit 0.2)) 5"
  have N: "1 / 5 \<le> N" "N \<le> 5" unfolding N_def by (rule newZoom_range)+
  from anchor_finite[OF finite(2,3,4)[folded K_def] Z(1) N K]
  obtain mouseX offX contentX zoomedX newPanX where x:
    "fsub (w_clientX e) (w_rect_left e) = Some mouseX" "fsub mouseX (fst (pan st)) = Some offX"
    "fdiv offX (zoom st) = Some contentX" "fmul contentX N = Some zoomedX"
    "fsub mouseX zoomedX = Some newPanX"
    by blast
  from anchor_finite[OF finite(5,6,7)[folded K_def] Z(1) N K]
  obtain mouseY offY contentY zoomedY newPanY where y:
    "fsub (w_clientY e) (w_rect_top e) = Some mouseY" "fsub mouseY (snd (pan st)) = Some offY"
    "fdiv offY (zoom st) = Some contentY" "fmul contentY N = Some zoomedY"
    "fsub mouseY zoomedY = Some newPanY"
    by blast
  define st' where "st' = st\<lparr>zoom := N, pan := (newPanX, newPanY)\<rparr>"
  have run: "onWheel e st = Some st'"
    using ctrl z x y by (simp add: onWheel_def Let_def N_def st'_def)
  have f: "zoom st' = N" "fst (pan st') = newPanX" "snd (pan st') = newPanY"
    by (simp_all add: st'_def)
  have ex: "\<bar>(mouseX - newPanX) / N - (mouseX - fst (pan st)) / zoom st\<bar>
             \<le> 9 * u53 * (\<bar>(mouseX - fst (pan st)) / zoom st\<bar> + \<bar>mouseX\<bar> / N) + 25 * eta"
    by (rule anchor_error[OF x(2,3,4,5) Z(1) N(1)])
  have ey: "\<bar>(mouseY - newPanY) / N - (mouseY - snd (pan st)) / zoom st\<bar>
             \<le> 9 * u53 * (\<bar>(mouseY - snd (pan st)) / zoom st\<bar> + \<bar>mouseY\<bar> / N) + 25 * eta"
    by (rule anchor_error[OF y(2,3,4,5) Z(1) N(1)])
  from run x(1) y(1) N ex ey show ?thesis
    unfolding f[symmetric] by (intro exI[of _ st'] exI[of _ mouseX] exI[of _ mouseY]) simp
qed

text \<open>
  A pinch on a freshly mounted viewer, operation by operation: \<^verbatim>\<open>deltaY = -10\<close> at
  \<open>P = 63\<close>.
\<close>

lemma ex_pinch_delta: "fmul 10 (lit 0.01) = Some (7205759403792794 / 2 ^ 56)"
  unfolding fmul_def lit_001
  using fl_eval[of "- 4" "10 * (5764607523034235 / 2 ^ 59)"]
  by (simp add: roundEven_def Let_def power_int_minus)

lemma ex_pinch_factor: "fadd 1 (7205759403792794 / 2 ^ 56) = Some (4953959590107546 / 2 ^ 52)"
  using fl_eval[of 0 "1 + 7205759403792794 / 2 ^ 56"]
  by (simp add: fadd_def roundEven_def Let_def power_int_minus)

lemma ex_pinch_scaled: "fmul 1 (4953959590107546 / 2 ^ 52) = Some (4953959590107546 / 2 ^ 52)"
  using fl_eval[of 0 "4953959590107546 / 2 ^ 52"]
  by (simp add: fmul_def roundEven_def Let_def power_int_minus)

lemma ex_pinch_mouse: "fl 63 = Some 63"
  using fl_eval[of 5 63]
  by (simp add: roundEven_def Let_def power_int_minus)

lemma ex_pinch_zoomed: "fmul 63 (4953959590107546 / 2 ^ 52) = Some (4876553971512116 / 2 ^ 46)"
  using fl_eval[of 6 "63 * (4953959590107546 / 2 ^ 52)"]
  by (simp add: fmul_def roundEven_def Let_def power_int_minus)

lemma ex_pinch_newPan: "fsub 63 (4876553971512116 / 2 ^ 46) = Some (- (443323088319284 / 2 ^ 46))"
  using fl_eval[of 2 "63 - 4876553971512116 / 2 ^ 46"]
  by (simp add: fsub_def roundEven_def Let_def power_int_minus)

lemma ex_pinch_result:
  "onWheel ex_pinch initialState = Some ex_pinched"
  "fsub (w_clientX ex_pinch) (w_rect_left ex_pinch) = Some 63"
proof -
  have z: "min (max (4953959590107546 / 2 ^ 52) (lit 0.2)) 5 = (4953959590107546 / 2 ^ 52 :: real)"
    unfolding lit_02 by simp
  show "onWheel ex_pinch initialState = Some ex_pinched"
    using ex_pinch_delta ex_pinch_factor ex_pinch_scaled ex_pinch_mouse ex_pinch_zoomed
      ex_pinch_newPan fl_zero z
    by (simp add: onWheel_def ex_pinch_def ex_pinched_def initialState_def fsub_def fdiv_def fmul_def)
  show "fsub (w_clientX ex_pinch) (w_rect_left ex_pinch) = Some 63"
    using ex_pinch_mouse by (simp add: ex_pinch_def fsub_def)
qed

text \<open>
  C6 (amended). A wheel event with the modifier key zooms about the cursor. Whenever the
  numbers the handler computes are finite, the new zoom factor lies in \<open>[0.2, 5]\<close>. For a
  state whose zoom factor lies in \<open>[0.2, 5]\<close> and numbers of size at most \<open>2 ^ 1000\<close>, every
  number the handler computes is finite and the content-space coordinate under the
  pointer, \<open>(P - pan) / zoom\<close>, is the same before and after the update up to rounding:
  the two differ by at most \<open>9 * 2 ^ - 53 * (\<bar>c\<bar> + \<bar>P\<bar> / zoom') + 25 * 2 ^ - 1075\<close>, where \<open>c\<close>
  is the coordinate before and \<open>zoom'\<close> the new zoom factor. Here \<open>P\<close> is the pointer
  position relative to the element, as the handler computes it.
\<close>

theorem onWheel_zoom_anchored:
  fixes e :: wheelEvent and st :: viewerState
  assumes ctrl: "w_ctrlKey e"
  shows "(\<forall>st'. onWheel e st = Some st' \<longrightarrow> 0.2 \<le> zoom st' \<and> zoom st' \<le> 5) \<and>
         (0.2 \<le> zoom st \<and> zoom st \<le> 5 \<and> \<bar>w_deltaY e\<bar> \<le> 2 ^ 1000 \<and>
          \<bar>w_clientX e\<bar> \<le> 2 ^ 1000 \<and> \<bar>w_rect_left e\<bar> \<le> 2 ^ 1000 \<and> \<bar>fst (pan st)\<bar> \<le> 2 ^ 1000 \<and>
          \<bar>w_clientY e\<bar> \<le> 2 ^ 1000 \<and> \<bar>w_rect_top e\<bar> \<le> 2 ^ 1000 \<and> \<bar>snd (pan st)\<bar> \<le> 2 ^ 1000 \<longrightarrow>
          (\<exists>st' mouseX mouseY.
             onWheel e st = Some st' \<and>
             fsub (w_clientX e) (w_rect_left e) = Some mouseX \<and>
             fsub (w_clientY e) (w_rect_top e) = Some mouseY \<and>
             \<bar>(mouseX - fst (pan st')) / zoom st' - (mouseX - fst (pan st)) / zoom st\<bar>
               \<le> 9 * u53 * (\<bar>(mouseX - fst (pan st)) / zoom st\<bar> + \<bar>mouseX\<bar> / zoom st') + 25 * eta \<and>
             \<bar>(mouseY - snd (pan st')) / zoom st' - (mouseY - snd (pan st)) / zoom st\<bar>
               \<le> 9 * u53 * (\<bar>(mouseY - snd (pan st)) / zoom st\<bar> + \<bar>mouseY\<bar> / zoom st') + 25 * eta))"
proof (intro conjI allI impI)
  fix st' assume run: "onWheel e st = Some st'"
  with ctrl obtain scaled where "zoom st' = min (max scaled (lit 0.2)) 5"
    by (auto simp: onWheel_def Let_def split: bind_splits)
  with newZoom_range[of scaled] show "0.2 \<le> zoom st'" and "zoom st' \<le> 5" by simp_all
next
  assume h: "0.2 \<le> zoom st \<and> zoom st \<le> 5 \<and> \<bar>w_deltaY e\<bar> \<le> 2 ^ 1000 \<and>
          \<bar>w_clientX e\<bar> \<le> 2 ^ 1000 \<and> \<bar>w_rect_left e\<bar> \<le> 2 ^ 1000 \<and> \<bar>fst (pan st)\<bar> \<le> 2 ^ 1000 \<and>
          \<bar>w_clientY e\<bar> \<le> 2 ^ 1000 \<and> \<bar>w_rect_top e\<bar> \<le> 2 ^ 1000 \<and> \<bar>snd (pan st)\<bar> \<le> 2 ^ 1000"
  then have z: "0.2 \<le> zoom st" "zoom st \<le> 5"
    and f: "\<bar>w_deltaY e\<bar> \<le> 2 ^ 1000"
      "\<bar>w_clientX e\<bar> \<le> 2 ^ 1000" "\<bar>w_rect_left e\<bar> \<le> 2 ^ 1000" "\<bar>fst (pan st)\<bar> \<le> 2 ^ 1000"
      "\<bar>w_clientY e\<bar> \<le> 2 ^ 1000" "\<bar>w_rect_top e\<bar> \<le> 2 ^ 1000" "\<bar>snd (pan st)\<bar> \<le> 2 ^ 1000"
    by blast+
  from onWheel_finite_anchored[OF ctrl z f]
  show "\<exists>st' mouseX mouseY.
             onWheel e st = Some st' \<and>
             fsub (w_clientX e) (w_rect_left e) = Some mouseX \<and>
             fsub (w_clientY e) (w_rect_top e) = Some mouseY \<and>
             \<bar>(mouseX - fst (pan st')) / zoom st' - (mouseX - fst (pan st)) / zoom st\<bar>
               \<le> 9 * u53 * (\<bar>(mouseX - fst (pan st)) / zoom st\<bar> + \<bar>mouseX\<bar> / zoom st') + 25 * eta \<and>
             \<bar>(mouseY - snd (pan st')) / zoom st' - (mouseY - snd (pan st)) / zoom st\<bar>
               \<le> 9 * u53 * (\<bar>(mouseY - snd (pan st)) / zoom st\<bar> + \<bar>mouseY\<bar> / zoom st') + 25 * eta"
    by blast
qed

theorem onWheel_zoom_anchored_witness:
  "w_ctrlKey ex_pinch \<and> 0.2 \<le> zoom initialState \<and> zoom initialState \<le> 5 \<and>
   \<bar>w_deltaY ex_pinch\<bar> \<le> 2 ^ 1000 \<and> \<bar>w_clientX ex_pinch\<bar> \<le> 2 ^ 1000 \<and>
   onWheel ex_pinch initialState = Some ex_pinched \<and>
   0.2 \<le> zoom ex_pinched \<and> zoom ex_pinched \<le> 5 \<and>
   \<bar>(63 - fst (pan ex_pinched)) / zoom ex_pinched - (63 - fst (pan initialState)) / zoom initialState\<bar>
     \<le> 9 * u53 * (\<bar>(63 - fst (pan initialState)) / zoom initialState\<bar> + \<bar>63\<bar> / zoom ex_pinched)
         + 25 * eta"
proof -
  have c: "w_ctrlKey ex_pinch" by (simp add: ex_pinch_def)
  have z: "0.2 \<le> zoom initialState" "zoom initialState \<le> 5" by (simp_all add: initialState_def)
  have f: "\<bar>w_deltaY ex_pinch\<bar> \<le> 2 ^ 1000"
    "\<bar>w_clientX ex_pinch\<bar> \<le> 2 ^ 1000" "\<bar>w_rect_left ex_pinch\<bar> \<le> 2 ^ 1000"
    "\<bar>fst (pan initialState)\<bar> \<le> 2 ^ 1000"
    "\<bar>w_clientY ex_pinch\<bar> \<le> 2 ^ 1000" "\<bar>w_rect_top ex_pinch\<bar> \<le> 2 ^ 1000"
    "\<bar>snd (pan initialState)\<bar> \<le> 2 ^ 1000"
    by (simp_all add: ex_pinch_def initialState_def)
  note T = onWheel_zoom_anchored[OF c, of initialState]
  from T ex_pinch_result(1) have r: "0.2 \<le> zoom ex_pinched" "zoom ex_pinched \<le> 5"
    by blast+
  from T z f obtain st' mouseX mouseY where
    "onWheel ex_pinch initialState = Some st'"
    "fsub (w_clientX ex_pinch) (w_rect_left ex_pinch) = Some mouseX"
    "\<bar>(mouseX - fst (pan st')) / zoom st' - (mouseX - fst (pan initialState)) / zoom initialState\<bar>
        \<le> 9 * u53 * (\<bar>(mouseX - fst (pan initialState)) / zoom initialState\<bar> + \<bar>mouseX\<bar> / zoom st')
            + 25 * eta"
    by blast
  with ex_pinch_result have
    "\<bar>(63 - fst (pan ex_pinched)) / zoom ex_pinched - (63 - fst (pan initialState)) / zoom initialState\<bar>
     \<le> 9 * u53 * (\<bar>(63 - fst (pan initialState)) / zoom initialState\<bar> + \<bar>63\<bar> / zoom ex_pinched)
         + 25 * eta"
    by simp
  with c z f(1,2) ex_pinch_result(1) r show ?thesis by blast
qed

text \<open>
  The claim as stated fails: the coordinate is not identical. On a freshly mounted viewer
  (zoom 1, pan 0) a pinch with \<^verbatim>\<open>deltaY = -10\<close> at \<open>P = 63\<close> gives the zoom factor
  \<open>1.1\<close> (the double \<open>4953959590107546 / 2 ^ 52\<close>) and the pan
  \<open>- 443323088319284 / 2 ^ 46\<close>, which prints as \<^verbatim>\<open>-6.300000000000011\<close>; the content
  coordinate under the pointer was 63 and is \<open>63.00000000000001\<close> afterwards.
\<close>

theorem onWheel_anchor_counterexample:
  "onWheel ex_pinch initialState = Some ex_pinched \<and>
   fsub (w_clientX ex_pinch) (w_rect_left ex_pinch) = Some 63 \<and>
   zoom ex_pinched = 4953959590107546 / 2 ^ 52 \<and>
   fst (pan ex_pinched) = - (443323088319284 / 2 ^ 46) \<and>
   (63 - fst (pan initialState)) / zoom initialState = 63 \<and>
   (63 - fst (pan ex_pinched)) / zoom ex_pinched \<noteq> 63"
proof -
  have 1: "zoom ex_pinched = 4953959590107546 / 2 ^ 52"
    "fst (pan ex_pinched) = - (443323088319284 / 2 ^ 46)"
    by (simp_all add: ex_pinched_def)
  have 2: "(63 - fst (pan initialState)) / zoom initialState = 63"
    by (simp add: initialState_def)
  have 3: "(63 - fst (pan ex_pinched)) / zoom ex_pinched \<noteq> 63"
    by (simp add: ex_pinched_def)
  from ex_pinch_result 1 2 3 show ?thesis by blast
qed

section \<open>Channel search\<close>





section \<open>Debounced persistence\<close>

lemma saveTimerFires_idle:
  "layoutSaveTimer ps = None \<Longrightarrow> (saveTimerFires JSON_stringify ^^ n) ps = ps"
  by (induction n) (simp_all add: saveTimerFires_def)

text \<open>
  C10. When the three override collections are all empty, the save effect leaves no
  write pending (its clean-up has cancelled the one that was), so however often the
  timer event is delivered the stored record stays what it was; a viewer mounted
  afterwards for the same design id therefore loads the previously persisted layout
  again.
\<close>

theorem saveEffect_all_empty_keeps_record:
  fixes JSON_parse :: "string \<Rightarrow> js_error + jsonValue" and JSON_stringify :: "LayoutData \<Rightarrow> string"
    and n :: nat
  assumes empty: "length (blockPositionOverrides st) = 0" "length (connPointOverrides st) = 0"
                 "length (connWaypoints st) = 0"
    and design: "p_designId props = Some designId" "designId \<noteq> []"
    and stored: "getItem (localStorage ps) (getLayoutKey designId) = Inr (Some raw)" "raw \<noteq> []"
                "JSON_parse raw = Inr (Truthy \<lparr>sv_blockPositions = Some bp, sv_pointOverrides = Some po,
                                               sv_waypoints = Some wp\<rparr>)"
  defines "ps' \<equiv> (saveTimerFires JSON_stringify ^^ n) (saveEffect props st ps)"
  shows "layoutSaveTimer (saveEffect props st ps) = None \<and>
         localStorage ps' = localStorage ps \<and>
         loadEffect JSON_parse (localStorage ps') props initialState =
           Inr (initialState\<lparr>blockPositionOverrides := mapOfEntries bp,
                              connPointOverrides := mapOfEntries po,
                              connWaypoints := mapOfEntries wp\<rparr>)"
proof -
  have none: "layoutSaveTimer (saveEffect props st ps) = None"
    using empty design
    by (simp add: saveEffect_def saveEffectBody_def saveEffectCleanup_def)
  have same: "localStorage (saveEffect props st ps) = localStorage ps"
    using empty design
    by (simp add: saveEffect_def saveEffectBody_def saveEffectCleanup_def)
  have ps': "ps' = saveEffect props st ps"
    unfolding ps'_def by (rule saveTimerFires_idle[OF none])
  have ls: "localStorage ps' = localStorage ps"
    by (simp add: ps' same)
  have load: "loadLayout JSON_parse (localStorage ps) designId =
      Truthy \<lparr>sv_blockPositions = Some bp, sv_pointOverrides = Some po, sv_waypoints = Some wp\<rparr>"
    using stored by (simp add: loadLayout_def)
  have "loadEffect JSON_parse (localStorage ps) props initialState =
           Inr (initialState\<lparr>blockPositionOverrides := mapOfEntries bp,
                              connPointOverrides := mapOfEntries po,
                              connWaypoints := mapOfEntries wp\<rparr>)"
    using design load
    by (cases bp; cases po; cases wp) (simp_all add: loadEffect_def Let_def initialState_def mapOfEntries_def)
  with none ls show ?thesis by simp
qed

theorem saveEffect_all_empty_keeps_record_witness:
  "length (blockPositionOverrides initialState) = 0 \<and> length (connPointOverrides initialState) = 0 \<and>
   length (connWaypoints initialState) = 0 \<and>
   getItem (localStorage ex_persistence) (getLayoutKey ''d1'') = Inr (Some ''saved'') \<and>
   layoutSaveTimer (saveEffect ex_props initialState ex_persistence) = None \<and>
   loadEffect ex_parse
       (localStorage ((saveTimerFires (\<lambda>d. ''rewritten'') ^^ 2)
                        (saveEffect ex_props initialState ex_persistence)))
       ex_props initialState
     = Inr (initialState\<lparr>blockPositionOverrides := mapOfEntries [],
                         connPointOverrides := mapOfEntries [],
                         connWaypoints := mapOfEntries [(0, [(300, 136)])]\<rparr>)"
proof -
  have e: "length (blockPositionOverrides initialState) = 0" "length (connPointOverrides initialState) = 0"
    "length (connWaypoints initialState) = 0"
    by (simp_all add: initialState_def)
  have d: "p_designId ex_props = Some ''d1''" "''d1'' \<noteq> []"
    by (simp_all add: ex_props_def)
  have s: "getItem (localStorage ex_persistence) (getLayoutKey ''d1'') = Inr (Some ''saved'')"
    "''saved'' \<noteq> []"
    "ex_parse ''saved'' = Inr (Truthy \<lparr>sv_blockPositions = Some [], sv_pointOverrides = Some [],
                        sv_waypoints = Some [(0, [(300, 136)])]\<rparr>)"
    by (simp_all add: getItem_def ex_persistence_def getLayoutKey_def ex_parse_def)
  from saveEffect_all_empty_keeps_record
         [where JSON_parse = ex_parse and JSON_stringify = "\<lambda>d. ''rewritten''" and n = 2, OF e d s]
       e s(1)
  show ?thesis by blast
qed

section \<open>Dragging a block\<close>


text \<open>
  The empty string is falsy: with it as the grabbed id the handler takes the hover or the
  pan branch, which leave the overrides and the drag references alone.
\<close>

lemma handleCanvasMouseMove_empty_id:
  assumes "draggedNodeRef s = None" "draggedBlockRef s = Some []"
  shows "blockPositionOverrides (handleCanvasMouseMove props svgEl e s) = blockPositionOverrides s"
    and "connPointOverrides (handleCanvasMouseMove props svgEl e s) = connPointOverrides s"
    and "connWaypoints (handleCanvasMouseMove props svgEl e s) = connWaypoints s"
    and "draggedNodeRef (handleCanvasMouseMove props svgEl e s) = None"
    and "draggedBlockRef (handleCanvasMouseMove props svgEl e s) = Some []"
    and "dragStartPos (handleCanvasMouseMove props svgEl e s) = dragStartPos s"
    and "zoom (handleCanvasMouseMove props svgEl e s) = zoom s"
  using assms
  by (simp_all add: handleCanvasMouseMove_def Let_def truthy_def split: option.splits)







text \<open>Dragging a block whose id is the empty string commits nothing.\<close>

lemma blockDrag_empty_id:
  assumes "draggedNodeRef st = None"
  shows "blockPositionOverrides (blockDrag props svgEl [] blockX blockY e0 moves st)
           = blockPositionOverrides st"
proof -
  have "draggedNodeRef s = None \<and> draggedBlockRef s = Some [] \<and>
        blockPositionOverrides s = blockPositionOverrides st \<Longrightarrow>
        blockPositionOverrides (foldl (\<lambda>s e. handleCanvasMouseMove props svgEl e s) s moves)
          = blockPositionOverrides st" for s
  proof (induction moves arbitrary: s)
    case Nil
    then show ?case by simp
  next
    case (Cons e moves)
    then have a: "draggedNodeRef s = None" "draggedBlockRef s = Some []" by simp_all
    from Cons.prems show ?case
      by (simp add: Cons.IH handleCanvasMouseMove_empty_id[OF a])
  qed
  from this[of "handleBlockMouseDown [] blockX blockY e0 st"] assms show ?thesis
    by (simp add: blockDrag_def handleBlockMouseDown_def handleCanvasMouseUp_def)
qed

section \<open>Connection spreading: colliding pair keys\<close>

lemma pairGroups_ex_collide: "pairGroups ex_collide = [(''a<->b<->c'', [0, 1, 2, 3])]"
  by (simp add: pairGroups_def ex_collide_def pairKey_def mkConn_def)

text \<open>
  C8 (the code departs from the claim). Connections 0, 1 and 2 share the pair of blocks
  \<open>a\<close> and \<open>b<->c\<close>, and connection 3 is the only one between \<open>a<->b\<close> and \<open>c\<close>; the two
  pairs get the same key string \<open>a<->b<->c\<close>, so the code spreads the four connections
  as one group: the offsets are -22.5, -7.5, 7.5 and 22.5, not -15, 0, 15 and 0.
\<close>

theorem connectionOffsets_key_collision:
  "{from_block (ex_collide ! 3), to_block (ex_collide ! 3)}
     \<noteq> {from_block (ex_collide ! 0), to_block (ex_collide ! 0)} \<and>
   pairKey (ex_collide ! 3) = pairKey (ex_collide ! 0) \<and>
   connectionOffsets ex_collide = [(0, -22.5), (1, -7.5), (2, 7.5), (3, 22.5)]"
proof -
  have "connectionOffsets ex_collide = [(0, -22.5), (1, -7.5), (2, 7.5), (3, 22.5)]"
    by (simp add: connectionOffsets_def pairGroups_ex_collide spreadOffsets_def CONNECTION_SPREAD_def)
  moreover have "pairKey (ex_collide ! 3) = pairKey (ex_collide ! 0)"
    by (simp add: ex_collide_def pairKey_def mkConn_def)
  moreover have "{from_block (ex_collide ! 3), to_block (ex_collide ! 3)}
     \<noteq> {from_block (ex_collide ! 0), to_block (ex_collide ! 0)}"
    by (simp add: ex_collide_def mkConn_def doubleton_eq_iff)
  ultimately show ?thesis by blast
qed

section \<open>Connection spreading: groups by key\<close>

lemma keyGroup_snoc:
  "keyGroup (cs @ [c]) K = keyGroup cs K @ (if pairKey c = K then [length cs] else [])"
proof -
  have "filter (\<lambda>i. pairKey ((cs @ [c]) ! i) = K) [0..<length cs]
          = filter (\<lambda>i. pairKey (cs ! i) = K) [0..<length cs]"
    by (intro filter_cong) (auto simp: nth_append)
  then show ?thesis by (simp add: keyGroup_def)
qed

lemma pairGroups_fold: "pairGroups cs = foldl pairStep [] (enumerate 0 cs)"
proof -
  have "(\<lambda>m (i, conn).
              (let key = pairKey conn;
                   m1 = (if map_of m key = None then AList.update key [] m else m)
               in AList.map_entry key (\<lambda>is. is @ [i]) m1)) = pairStep"
    by (intro ext) (simp add: pairStep_def split: prod.splits)
  then show ?thesis by (simp add: pairGroups_def)
qed

lemma pairGroups_snoc: "pairGroups (cs @ [c]) = pairStep (pairGroups cs) (length cs, c)"
  by (simp add: pairGroups_fold enumerate_append_eq)

lemma pairGroups_spec:
  "distinct (map fst (pairGroups cs)) \<and>
   (\<forall>K. map_of (pairGroups cs) K = (if keyGroup cs K = [] then None else Some (keyGroup cs K)))"
proof (induction cs rule: rev_induct)
  case Nil
  then show ?case by (simp add: pairGroups_def keyGroup_def)
next
  case (snoc c cs)
  let ?m = "pairGroups cs"
  let ?k = "pairKey c"
  let ?m1 = "if map_of ?m ?k = None then AList.update ?k [] ?m else ?m"
  from snoc have d: "distinct (map fst ?m)"
    and m: "\<And>K. map_of ?m K = (if keyGroup cs K = [] then None else Some (keyGroup cs K))"
    by simp_all
  have step: "pairGroups (cs @ [c]) = AList.map_entry ?k (\<lambda>is. is @ [length cs]) ?m1"
    by (simp add: pairGroups_snoc pairStep_def Let_def)
  have d1: "distinct (map fst ?m1)"
    using d by (simp add: distinct_update)
  have m1: "map_of ?m1 K = (if K = ?k then Some (keyGroup cs K) else map_of ?m K)" for K
    using m[of K] m[of ?k] by (auto simp: update_conv')
  have "map_of (pairGroups (cs @ [c])) K =
          (if keyGroup (cs @ [c]) K = [] then None else Some (keyGroup (cs @ [c]) K))" for K
    unfolding step map_of_map_entry keyGroup_snoc
    using m1[of K] m1[of ?k] m[of K] by auto
  moreover have "distinct (map fst (pairGroups (cs @ [c])))"
    unfolding step by (rule distinct_map_entry[OF d1])
  ultimately show ?case by blast
qed

lemma pairGroups_values:
  assumes "g \<in> set (map snd (pairGroups cs))"
  shows "\<exists>K. g = keyGroup cs K \<and> g \<noteq> []"
proof -
  from assms obtain K where "(K, g) \<in> set (pairGroups cs)" by auto
  moreover have d: "distinct (map fst (pairGroups cs))"
    using pairGroups_spec[of cs] by blast
  ultimately have "map_of (pairGroups cs) K = Some g" by simp
  moreover have "map_of (pairGroups cs) K = (if keyGroup cs K = [] then None else Some (keyGroup cs K))"
    using pairGroups_spec[of cs] by blast
  ultimately have "g = keyGroup cs K \<and> g \<noteq> []"
    by (cases "keyGroup cs K = []") simp_all
  then show ?thesis by blast
qed

lemma pairGroups_has_group:
  assumes "keyGroup cs K \<noteq> []"
  shows "keyGroup cs K \<in> set (map snd (pairGroups cs))"
proof -
  have "map_of (pairGroups cs) K = Some (keyGroup cs K)"
    using pairGroups_spec[of cs] assms by simp
  then have "(K, keyGroup cs K) \<in> set (pairGroups cs)" by (rule map_of_SomeD)
  then show ?thesis by force
qed

lemma connectionOffsets_fold:
  "connectionOffsets cs = foldl putOffsets [] (map snd (pairGroups cs))"
  by (simp add: connectionOffsets_def putOffsets_def[abs_def])

lemma map_of_fold_update:
  "map_of (foldl (\<lambda>offsets (idx, v). AList.update idx v offsets) off kvs) i =
     (case map_of (rev kvs) i of Some v \<Rightarrow> Some v | None \<Rightarrow> map_of off i)"
proof (induction kvs arbitrary: off)
  case Nil
  then show ?case by simp
next
  case (Cons kv kvs)
  obtain k v where kv: "kv = (k, v)" by (cases kv)
  show ?case
    unfolding kv using Cons[of "AList.update k v off"]
    by (auto simp: update_conv' map_add_def split: option.splits)
qed

lemma spreadOffsets_keys: "map fst (spreadOffsets g) = g"
proof -
  have "map fst (map (\<lambda>(p, idx). (idx, f p)) (enumerate n g)) = g" for f :: "nat \<Rightarrow> real" and n
    by (induction g arbitrary: n) simp_all
  then show ?thesis
    by (simp add: spreadOffsets_def Let_def split_def)
qed

lemma map_of_putOffsets:
  "map_of (putOffsets off g) i =
     (if i \<in> set g then map_of (rev (spreadOffsets g)) i else map_of off i)"
proof -
  have keys: "fst ` set (rev (spreadOffsets g)) = set g"
    using spreadOffsets_keys[of g] by (metis set_map set_rev)
  show ?thesis
  proof (cases "i \<in> set g")
    case True
    then obtain v where "map_of (rev (spreadOffsets g)) i = Some v"
      using keys by (metis domD dom_map_of_conv_image_fst)
    then show ?thesis using True by (simp add: putOffsets_def map_of_fold_update)
  next
    case False
    then have "map_of (rev (spreadOffsets g)) i = None"
      using keys by (metis map_of_eq_None_iff)
    then show ?thesis using False by (simp add: putOffsets_def map_of_fold_update)
  qed
qed

lemma putOffsets_stable:
  assumes "\<forall>g' \<in> set gs. i \<in> set g' \<longrightarrow> g' = g"
    and "map_of off i = map_of (rev (spreadOffsets g)) i"
  shows "map_of (foldl putOffsets off gs) i = map_of (rev (spreadOffsets g)) i"
  using assms
proof (induction gs arbitrary: off)
  case Nil
  then show ?case by simp
next
  case (Cons g1 gs)
  have "map_of (putOffsets off g1) i = map_of (rev (spreadOffsets g)) i"
    using Cons.prems by (auto simp: map_of_putOffsets)
  with Cons show ?case by simp
qed

lemma putOffsets_group:
  assumes "g \<in> set gs" "i \<in> set g" "\<forall>g' \<in> set gs. i \<in> set g' \<longrightarrow> g' = g"
  shows "map_of (foldl putOffsets off gs) i = map_of (rev (spreadOffsets g)) i"
proof -
  from assms(1) obtain pre post where gs: "gs = pre @ g # post"
    by (meson split_list)
  have "map_of (putOffsets (foldl putOffsets off pre) g) i = map_of (rev (spreadOffsets g)) i"
    using assms(2) by (simp add: map_of_putOffsets)
  moreover have "\<forall>g' \<in> set post. i \<in> set g' \<longrightarrow> g' = g"
    using assms(3) gs by simp
  ultimately show ?thesis
    unfolding gs by (simp add: putOffsets_stable)
qed

lemma connectionOffsets_lookup:
  assumes "i \<in> set (keyGroup cs K)"
  shows "map_of (connectionOffsets cs) i = map_of (rev (spreadOffsets (keyGroup cs K))) i"
proof -
  have ne: "keyGroup cs K \<noteq> []" using assms by auto
  have key: "pairKey (cs ! i) = K" using assms by (simp add: keyGroup_def)
  have "\<forall>g' \<in> set (map snd (pairGroups cs)). i \<in> set g' \<longrightarrow> g' = keyGroup cs K"
  proof (intro ballI impI)
    fix g' assume "g' \<in> set (map snd (pairGroups cs))" "i \<in> set g'"
    then obtain K' where "g' = keyGroup cs K'" "i \<in> set (keyGroup cs K')"
      using pairGroups_values by blast
    then show "g' = keyGroup cs K" using key by (simp add: keyGroup_def)
  qed
  with pairGroups_has_group[OF ne] assms show ?thesis
    unfolding connectionOffsets_fold by (intro putOffsets_group) auto
qed

text \<open>
  What the spread offsets are in terms of keys (the key groups are the groups of pairs
  whenever no two different pairs of block ids give the same key): three connections
  with one key get the offsets -15, 0 and 15 in the order of their indices, and a
  connection alone with its key gets 0.
\<close>

theorem connectionOffsets_by_key:
  "(keyGroup cs K = [a, b, c] \<longrightarrow>
      map_of (connectionOffsets cs) a = Some (-15) \<and>
      map_of (connectionOffsets cs) b = Some 0 \<and>
      map_of (connectionOffsets cs) c = Some 15) \<and>
   (keyGroup cs K = [a] \<longrightarrow> map_of (connectionOffsets cs) a = Some 0)"
proof (intro conjI impI)
  assume g: "keyGroup cs K = [a, b, c]"
  have "distinct (keyGroup cs K)" by (simp add: keyGroup_def)
  then have d: "a \<noteq> b" "a \<noteq> c" "b \<noteq> c" using g by auto
  have s: "spreadOffsets [a, b, c] = [(a, -15), (b, 0), (c, 15)]"
    by (simp add: spreadOffsets_def CONNECTION_SPREAD_def)
  show "map_of (connectionOffsets cs) a = Some (-15)"
    using connectionOffsets_lookup[of a cs K] d by (simp add: g s)
  show "map_of (connectionOffsets cs) b = Some 0"
    using connectionOffsets_lookup[of b cs K] d by (simp add: g s)
  show "map_of (connectionOffsets cs) c = Some 15"
    using connectionOffsets_lookup[of c cs K] d by (simp add: g s)
next
  assume g: "keyGroup cs K = [a]"
  have s: "spreadOffsets [a] = [(a, 0)]"
    by (simp add: spreadOffsets_def CONNECTION_SPREAD_def)
  show "map_of (connectionOffsets cs) a = Some 0"
    using connectionOffsets_lookup[of a cs K] by (simp add: g s)
qed

theorem connectionOffsets_by_key_witness:
  "keyGroup ex_triple ''A<->B'' = [0, 1, 3] \<and>
   keyGroup ex_triple ''C<->D'' = [2] \<and>
   map_of (connectionOffsets ex_triple) 0 = Some (-15) \<and>
   map_of (connectionOffsets ex_triple) 1 = Some 0 \<and>
   map_of (connectionOffsets ex_triple) 3 = Some 15 \<and>
   map_of (connectionOffsets ex_triple) 2 = Some 0"
proof -
  have g3: "keyGroup ex_triple ''A<->B'' = [0, 1, 3]"
    by (simp add: keyGroup_def ex_triple_def pairKey_def mkConn_def upt_conv_Cons)
  have g1: "keyGroup ex_triple ''C<->D'' = [2]"
    by (simp add: keyGroup_def ex_triple_def pairKey_def mkConn_def upt_conv_Cons)
  from connectionOffsets_by_key[where cs = ex_triple and K = "''A<->B''" and a = 0 and b = 1 and c = 3] g3
  have a: "map_of (connectionOffsets ex_triple) 0 = Some (-15) \<and>
      map_of (connectionOffsets ex_triple) 1 = Some 0 \<and>
      map_of (connectionOffsets ex_triple) 3 = Some 15"
    by blast
  from connectionOffsets_by_key[where cs = ex_triple and K = "''C<->D''" and a = 2] g1
  have b: "map_of (connectionOffsets ex_triple) 2 = Some 0"
    by blast
  from g3 g1 a b show ?thesis by blast
qed

section \<open>Layering inside a hardware group\<close>

text \<open>
  C1 (the code departs from the claim). Four blocks of one hardware group, connected
  \<open>A \<rightarrow> B \<rightarrow> C \<rightarrow> D\<close> and \<open>A \<rightarrow> D\<close>: an acyclic input. The breadth-first layering gives a
  block the column of its first discovery, so \<open>D\<close>, found from \<open>A\<close>, is put in column 1
  although its predecessor \<open>C\<close> is in column 2: the connection from \<open>C\<close> to \<open>D\<close> points
  backward, and \<open>D\<close> is drawn left of \<open>C\<close>.
\<close>

theorem blockColumn_shortcut_points_backward:
  "hwGroupMap ex_diamond_blocks = [(''hw'', ex_diamond_blocks)] \<and>
   blockColumn ex_diamond_blocks ex_diamond_conns = [(''A'', 0), (''B'', 1), (''D'', 1), (''C'', 2)] \<and>
   map (\<lambda>lb. (block_id (lb_block lb), lb_x lb)) (layoutBlocks ex_diamond_blocks ex_diamond_conns)
     = [(''A'', 80), (''B'', 300), (''D'', 300), (''C'', 520)]"
  by code_simp

section \<open>Loading a persisted layout\<close>

lemma loadLayout_never_raises_missing:
  "getItem ls (getLayoutKey designId) = Inr None \<Longrightarrow> loadLayout JSON_parse ls designId = Falsy"
  by (simp add: loadLayout_def)

text \<open>
  Tolerated records: with no record, an unreadable store, an empty record or a record
  that \<^verbatim>\<open>JSON.parse\<close> rejects or parses to a falsy value, the load effect does not
  raise and leaves the state (so all three override collections) as it was.
\<close>

lemma loadEffect_tolerates_missing_or_unparsable:
  assumes "getItem ls (getLayoutKey designId) = Inl err
           \<or> getItem ls (getLayoutKey designId) = Inr None
           \<or> getItem ls (getLayoutKey designId) = Inr (Some [])
           \<or> (\<exists>raw. getItem ls (getLayoutKey designId) = Inr (Some raw)
                  \<and> (JSON_parse raw = Inl err' \<or> JSON_parse raw = Inr Falsy))"
    and "p_designId props = Some designId"
  shows "loadEffect JSON_parse ls props st = Inr st"
  using assms by (auto simp: loadEffect_def loadLayout_def)

text \<open>
  C3 (the code departs from the claim). The stored record \<^verbatim>\<open>{}\<close> is valid JSON whose
  value has none of the three lists. \<^verbatim>\<open>loadLayout\<close> returns it, and the load effect
  raises a \<^verbatim>\<open>TypeError\<close> on \<^verbatim>\<open>saved.blockPositions.length\<close> instead of falling back
  to the computed layout.
\<close>

theorem loadEffect_raises_on_record_without_lists:
  "loadEffect ex_parse_object ex_storage_object ex_props initialState = Inl TypeError"
  by (simp add: loadEffect_def loadLayout_def getItem_def getLayoutKey_def ex_parse_object_def
      ex_storage_object_def ex_props_def)

section \<open>Waypoint insertion\<close>

lemma locate_fold_index:
  "fst (snd (foldl (locateStep pts wp) acc xs)) \<in> insert (fst (snd acc)) (set xs)"
proof (induction xs arbitrary: acc)
  case Nil
  then show ?case by simp
next
  case (Cons s xs)
  have "fst (snd (locateStep pts wp acc s)) \<in> {fst (snd acc), s}"
    by (cases acc) (simp add: locateStep_def Let_def)
  with Cons[of "locateStep pts wp acc s"] show ?case by auto
qed

lemma locateWaypoint_segIdx:
  "ws_segIdx (locateWaypoint pts wp)
     = fst (snd (foldl (locateStep pts wp) (None, 0, 0) [0..<length pts - 1]))"
  by (cases "foldl (locateStep pts wp) (None, 0, 0) [0..<length pts - 1]")
     (simp add: locateWaypoint_def)

lemma locateWaypoint_index:
  assumes "2 \<le> length pts"
  shows "ws_segIdx (locateWaypoint pts wp) + 1 < length pts"
proof -
  have "ws_segIdx (locateWaypoint pts wp) \<in> insert 0 (set [0..<length pts - 1])"
    unfolding locateWaypoint_segIdx
    using locate_fold_index[of pts wp "(None, 0, 0)" "[0..<length pts - 1]"] by simp
  then have "ws_segIdx (locateWaypoint pts wp) = 0 \<or> ws_segIdx (locateWaypoint pts wp) < length pts - 1"
    by auto
  with assms show ?thesis by auto
qed

lemma locateWaypoint_wp: "ws_wp (locateWaypoint pts wp) = wp"
  by (simp add: locateWaypoint_def split: prod.splits)

lemma locate_nearest_step:
  "fst (snd (locateStep pts wp (bd, bi, bt) s)) = fst (nearestStep wp pts (bi, bd) s) \<and>
   fst (locateStep pts wp (bd, bi, bt) s) = snd (nearestStep wp pts (bi, bd) s)"
proof (cases "(fst (pts ! (s + 1)) - fst (pts ! s)) * (fst (pts ! (s + 1)) - fst (pts ! s))
               + (snd (pts ! (s + 1)) - snd (pts ! s)) * (snd (pts ! (s + 1)) - snd (pts ! s)) = 0")
  case True
  then show ?thesis
    by (cases bd) (simp_all add: locateStep_def nearestStep_def pointToSegmentDist_def Let_def)
next
  case False
  then show ?thesis
    by (cases bd) (simp_all add: locateStep_def nearestStep_def pointToSegmentDist_def Let_def)
qed

lemma locate_nearest_fold:
  "fst (snd (foldl (locateStep pts wp) (bd, bi, bt) xs)) = fst (foldl (nearestStep wp pts) (bi, bd) xs) \<and>
   fst (foldl (locateStep pts wp) (bd, bi, bt) xs) = snd (foldl (nearestStep wp pts) (bi, bd) xs)"
proof (induction xs arbitrary: bd bi bt)
  case Nil
  then show ?case by simp
next
  case (Cons s xs)
  obtain bd' bi' bt' where l: "locateStep pts wp (bd, bi, bt) s = (bd', bi', bt')"
    by (cases "locateStep pts wp (bd, bi, bt) s") auto
  with locate_nearest_step[of pts wp bd bi bt s]
  have n: "nearestStep wp pts (bi, bd) s = (bi', bd')"
    by (cases "nearestStep wp pts (bi, bd) s") simp
  show ?case using Cons[of bd' bi' bt'] by (simp add: l n)
qed

text \<open>The index kept by \<^verbatim>\<open>insertWaypointsIntoPath\<close> is that of the nearest-segment search.\<close>

lemma locateWaypoint_nearestSegment:
  "ws_segIdx (locateWaypoint pts wp) = nearestSegment wp pts"
  unfolding locateWaypoint_segIdx nearestSegment_def
  using locate_nearest_fold[of pts wp None 0 0 "[0..<length pts - 1]"] by simp

lemma clamp_inside:
  fixes a b v :: real
  assumes "10 \<le> \<bar>a - b\<bar>"
  shows "min a b + 5 \<le> max (min a b + 5) (min (max a b - 5) v)"
    and "max (min a b + 5) (min (max a b - 5) v) \<le> max a b - 5"
  using assms by (auto simp: max_def min_def)

lemma insideSegment_horizontal:
  fixes c :: real
  assumes "snd p1 = snd p2" "min (fst p1) (fst p2) + 5 \<le> c" "c \<le> max (fst p1) (fst p2) - 5"
  shows "insideSegment 5 p1 p2 (c, snd p1)"
proof -
  define a where "a = fst p1"
  define b where "b = fst p2"
  have c: "min a b + 5 \<le> c" "c \<le> max a b - 5" using assms by (simp_all add: a_def b_def)
  have 1: "0 \<le> (b - a) * (c - a)"
    using c by (cases "a \<le> b") (auto simp: min_def max_def zero_le_mult_iff)
  have 2: "(b - a) * (c - a) \<le> (b - a) * (b - a)"
  proof (cases "a \<le> b")
    case True
    then have "c - a \<le> b - a" "0 \<le> b - a" using c by (auto simp: min_def max_def)
    then show ?thesis by (rule mult_left_mono)
  next
    case False
    then have "b - a \<le> c - a" "b - a \<le> 0" using c by (auto simp: min_def max_def)
    then show ?thesis by (rule mult_left_mono_neg)
  qed
  have 3: "5 * 5 \<le> (c - a) * (c - a)"
  proof -
    have "5 \<le> \<bar>c - a\<bar>" using c by (auto simp: min_def max_def split: if_splits)
    then have "5 * 5 \<le> \<bar>c - a\<bar> * \<bar>c - a\<bar>" by (intro mult_mono) simp_all
    then show ?thesis by simp
  qed
  have 4: "5 * 5 \<le> (c - b) * (c - b)"
  proof -
    have "5 \<le> \<bar>c - b\<bar>" using c by (auto simp: min_def max_def split: if_splits)
    then have "5 * 5 \<le> \<bar>c - b\<bar> * \<bar>c - b\<bar>" by (intro mult_mono) simp_all
    then show ?thesis by simp
  qed
  show ?thesis
    using 1 2 3 4 assms(1) by (simp add: insideSegment_def Let_def a_def b_def)
qed

lemma insideSegment_swap:
  "insideSegment d (y1, x1) (y2, x2) (yq, xq) = insideSegment d (x1, y1) (x2, y2) (xq, yq)"
  by (auto simp: insideSegment_def Let_def algebra_simps)

lemma insideSegment_vertical:
  fixes c :: real
  assumes "fst p1 = fst p2" "min (snd p1) (snd p2) + 5 \<le> c" "c \<le> max (snd p1) (snd p2) - 5"
  shows "insideSegment 5 p1 p2 (fst p1, c)"
proof -
  have "insideSegment 5 (snd p1, fst p1) (snd p2, fst p2) (c, snd (snd p1, fst p1))"
    by (rule insideSegment_horizontal) (use assms in simp_all)
  then show ?thesis
    using insideSegment_swap[of 5 "fst p1" "snd p1" "fst p2" "snd p2" "fst p1" c] by simp
qed

text \<open>
  One round of the splitting loop inserts the jog point twice, after the first end
  point of the segment.
\<close>

lemma splitSegment_jogPoint:
  assumes "ws_segIdx w + 1 < length points"
    and "find (\<lambda>v. ws_segIdx v = ws_segIdx w) W = Some w"
  shows "splitSegment W points (ws_segIdx w) = Inr (splice2 (ws_segIdx w + 1) (jogPoint points w) points)"
  using assms by (simp add: splitSegment_def jogPoint_def Let_def)

lemma jogPoint_inside:
  fixes points :: path and w :: wpSeg
  defines "p1 \<equiv> points ! ws_segIdx w" and "p2 \<equiv> points ! (ws_segIdx w + 1)"
  assumes aligned: "snd p1 = snd p2 \<or> fst p1 = fst p2"
    and long: "10 \<le> \<bar>fst p1 - fst p2\<bar> + \<bar>snd p1 - snd p2\<bar>"
  shows "insideSegment 5 p1 p2 (jogPoint points w)"
proof (cases "snd p1 = snd p2")
  case True
  then have h: "\<bar>snd p1 - snd p2\<bar> < 1" and l: "10 \<le> \<bar>fst p1 - fst p2\<bar>"
    using long by simp_all
  let ?c = "max (min (fst p1) (fst p2) + 5) (min (max (fst p1) (fst p2) - 5) (fst (ws_wp w)))"
  have "jogPoint points w = (?c, snd p1)"
    using h by (simp add: jogPoint_def Let_def p1_def p2_def)
  moreover have "insideSegment 5 p1 p2 (?c, snd p1)"
    using clamp_inside[OF l] True by (intro insideSegment_horizontal) simp_all
  ultimately show ?thesis by simp
next
  case False
  with aligned have v: "fst p1 = fst p2" by simp
  with long have l: "10 \<le> \<bar>snd p1 - snd p2\<bar>" by simp
  then have h: "\<not> \<bar>snd p1 - snd p2\<bar> < 1" by simp
  let ?c = "max (min (snd p1) (snd p2) + 5) (min (max (snd p1) (snd p2) - 5) (snd (ws_wp w)))"
  have "jogPoint points w = (fst p1, ?c)"
    using h by (simp add: jogPoint_def Let_def p1_def p2_def)
  moreover have "insideSegment 5 p1 p2 (fst p1, ?c)"
    using clamp_inside[OF l] v by (intro insideSegment_vertical) simp_all
  ultimately show ?thesis by simp
qed

lemma jogPoint_cong:
  assumes "points' ! ws_segIdx w = points ! ws_segIdx w"
    and "points' ! (ws_segIdx w + 1) = points ! (ws_segIdx w + 1)"
  shows "jogPoint points' w = jogPoint points w"
  using assms by (simp add: jogPoint_def)

lemma nth_splice2:
  assumes "k \<le> length xs"
  shows "splice2 k q xs ! i = (if i < k then xs ! i else if i < k + 2 then q else xs ! (i - 2))"
proof -
  have "i < k \<Longrightarrow> splice2 k q xs ! i = xs ! i"
    using assms by (simp add: splice2_def nth_append)
  moreover have "i = k \<Longrightarrow> splice2 k q xs ! i = q"
    using assms by (simp add: splice2_def nth_append)
  moreover have "i = k + 1 \<Longrightarrow> splice2 k q xs ! i = q"
    using assms by (simp add: splice2_def nth_append)
  moreover have "k + 2 \<le> i \<Longrightarrow> splice2 k q xs ! i = xs ! (i - 2)"
  proof -
    assume a: "k + 2 \<le> i"
    then have "i - k - 2 + k = i - 2" by simp
    with a assms show ?thesis
      by (simp add: splice2_def nth_append min_def numeral_2_eq_2 add.commute)
  qed
  ultimately show ?thesis
    by (cases "i < k"; cases "i = k"; cases "i = k + 1") auto
qed

lemma length_splice2: "length (splice2 k q xs) = length xs + 2"
  by (simp add: splice2_def)

text \<open>
  The loop on a strictly descending list of segments: every original point is kept,
  shifted by two places for each segment split before it, and each segment holds its
  jog point twice, computed from the original end points.
\<close>

lemma splitSegments_descending:
  assumes "sorted_wrt (\<lambda>a b. ws_segIdx b < ws_segIdx a) ws"
    and "\<forall>w\<in>set ws. ws_segIdx w + 1 < length points"
    and "\<forall>w\<in>set ws. find (\<lambda>v. ws_segIdx v = ws_segIdx w) W = Some w"
  shows "\<exists>res. splitSegments W points ws = Inr res \<and>
           length res = length points + 2 * length ws \<and>
           (\<forall>i<length points.
              res ! (i + 2 * length (filter (\<lambda>v. ws_segIdx v < i) ws)) = points ! i) \<and>
           (\<forall>w\<in>set ws.
              res ! (ws_segIdx w + 1 + 2 * length (filter (\<lambda>v. ws_segIdx v < ws_segIdx w) ws))
                = jogPoint points w \<and>
              res ! (ws_segIdx w + 2 + 2 * length (filter (\<lambda>v. ws_segIdx v < ws_segIdx w) ws))
                = jogPoint points w)"
  using assms
proof (induction ws arbitrary: points)
  case Nil
  then show ?case by simp
next
  case (Cons w rest)
  define s where "s = ws_segIdx w"
  define q where "q = jogPoint points w"
  define points' where "points' = splice2 (s + 1) q points"
  have s: "s + 1 < length points" using Cons.prems(2) by (simp add: s_def)
  have below: "\<forall>v\<in>set rest. ws_segIdx v < s" using Cons.prems(1) by (simp add: s_def)
  have step: "splitSegment W points (ws_segIdx w) = Inr points'"
    unfolding points'_def q_def s_def
    using Cons.prems(2,3) by (intro splitSegment_jogPoint) simp_all
  have len': "length points' = length points + 2"
    by (simp add: points'_def length_splice2)
  have nth': "points' ! i = (if i < s + 1 then points ! i else if i < s + 3 then q else points ! (i - 2))" for i
    unfolding points'_def using nth_splice2[of "s + 1" points q i] s by (simp add: add.commute)
  have cnt_all: "length (filter (\<lambda>v. ws_segIdx v < i) rest) = length rest" if "s \<le> i" for i
  proof -
    have "filter (\<lambda>v. ws_segIdx v < i) rest = rest"
      using below that by (intro filter_True) auto
    then show ?thesis by simp
  qed
  have p1: "sorted_wrt (\<lambda>a b. ws_segIdx b < ws_segIdx a) rest"
    using Cons.prems(1) by simp
  have p2: "\<forall>w\<in>set rest. ws_segIdx w + 1 < length points'"
    using Cons.prems(2) len' by auto
  have p3: "\<forall>w\<in>set rest. find (\<lambda>v. ws_segIdx v = ws_segIdx w) W = Some w"
    using Cons.prems(3) by simp
  from Cons.IH[OF p1 p2 p3]
  obtain res where run: "splitSegments W points' rest = Inr res"
    and rlen: "length res = length points' + 2 * length rest"
    and keep: "\<And>i. i < length points' \<Longrightarrow>
                 res ! (i + 2 * length (filter (\<lambda>v. ws_segIdx v < i) rest)) = points' ! i"
    and jogs: "\<And>v. v \<in> set rest \<Longrightarrow>
              res ! (ws_segIdx v + 1 + 2 * length (filter (\<lambda>u. ws_segIdx u < ws_segIdx v) rest))
                = jogPoint points' v \<and>
              res ! (ws_segIdx v + 2 + 2 * length (filter (\<lambda>u. ws_segIdx u < ws_segIdx v) rest))
                = jogPoint points' v"
    by blast
  have 1: "splitSegments W points (w # rest) = Inr res"
    by (simp add: step run)
  have 2: "length res = length points + 2 * length (w # rest)"
    by (simp add: rlen len')
  have 3: "res ! (i + 2 * length (filter (\<lambda>v. ws_segIdx v < i) (w # rest))) = points ! i"
    if i: "i < length points" for i
  proof (cases "s < i")
    case True
    have "res ! (i + 2 + 2 * length (filter (\<lambda>v. ws_segIdx v < i + 2) rest)) = points' ! (i + 2)"
      using keep[of "i + 2"] i len' by simp
    moreover have "points' ! (i + 2) = points ! i" using True by (simp add: nth')
    ultimately show ?thesis using True cnt_all[of i] cnt_all[of "i + 2"]
      by (simp add: s_def[symmetric])
  next
    case False
    have "res ! (i + 2 * length (filter (\<lambda>v. ws_segIdx v < i) rest)) = points' ! i"
      using keep[of i] i len' by simp
    moreover have "points' ! i = points ! i" using False by (simp add: nth')
    ultimately show ?thesis using False by (simp add: s_def[symmetric])
  qed
  have 4: "res ! (ws_segIdx v + 1 + 2 * length (filter (\<lambda>u. ws_segIdx u < ws_segIdx v) (w # rest)))
             = jogPoint points v \<and>
           res ! (ws_segIdx v + 2 + 2 * length (filter (\<lambda>u. ws_segIdx u < ws_segIdx v) (w # rest)))
             = jogPoint points v"
    if v: "v \<in> set (w # rest)" for v
  proof (cases "v \<in> set rest")
    case True
    then have lt: "ws_segIdx v < s" using below by simp
    have "jogPoint points' v = jogPoint points v"
      using lt by (intro jogPoint_cong) (simp_all add: nth')
    with jogs[OF True] lt show ?thesis by (simp add: s_def[symmetric])
  next
    case False
    with v have vw: "v = w" by simp
    have a: "res ! (s + 1 + 2 * length (filter (\<lambda>v. ws_segIdx v < s + 1) rest)) = points' ! (s + 1)"
      using keep[of "s + 1"] s len' by simp
    have b: "res ! (s + 2 + 2 * length (filter (\<lambda>v. ws_segIdx v < s + 2) rest)) = points' ! (s + 2)"
      using keep[of "s + 2"] s len' by simp
    have c: "points' ! (s + 1) = q" "points' ! (s + 2) = q" by (simp_all add: nth')
    from a b c cnt_all[of s] cnt_all[of "s + 1"] cnt_all[of "s + 2"]
    show ?thesis by (simp add: vw s_def[symmetric] q_def)
  qed
  from 1 2 3 4 show ?case by blast
qed

text \<open>
  The sort puts waypoints located on pairwise different segments in strictly descending
  order of their segments, so each round of the loop works on a part of the array that
  no earlier round has touched, and \<^verbatim>\<open>find\<close> returns the waypoint of the round.
\<close>

lemma find_distinct_key:
  assumes "distinct (map f xs)" and "x \<in> set xs"
  shows "find (\<lambda>v. f v = f x) xs = Some x"
  using assms by (induction xs) (auto simp: image_iff)

lemma sortWpWithSeg_set: "set (sortWpWithSeg ws) = set ws"
  by (simp add: sortWpWithSeg_def)

lemma sortWpWithSeg_length: "length (sortWpWithSeg ws) = length ws"
  by (simp add: sortWpWithSeg_def)

lemma sortWpWithSeg_distinct:
  "distinct (map ws_segIdx (sortWpWithSeg ws)) = distinct (map ws_segIdx ws)"
  by (simp add: distinct_map sortWpWithSeg_def)

lemma sortWpWithSeg_filter:
  "length (filter P (sortWpWithSeg ws)) = length (filter P ws)"
  by (simp add: sortWpWithSeg_def filter_sort)

lemma sortWpWithSeg_descending:
  assumes "distinct (map ws_segIdx ws)"
  shows "sorted_wrt (\<lambda>a b. ws_segIdx b < ws_segIdx a) (sortWpWithSeg ws)"
proof -
  let ?S = "sortWpWithSeg ws"
  let ?key = "\<lambda>w. (- int (ws_segIdx w), - ws_t w)"
  have srt: "sorted (map ?key ?S)"
    unfolding sortWpWithSeg_def by (rule sorted_sort_key)
  have dst: "distinct (map ws_segIdx ?S)"
    using assms by (simp add: sortWpWithSeg_distinct)
  have "ws_segIdx (?S ! j) < ws_segIdx (?S ! i)" if "i < j" "j < length ?S" for i j
  proof -
    have "map ?key ?S ! i \<le> map ?key ?S ! j"
      using srt that by (intro sorted_nth_mono) simp_all
    then have "?key (?S ! i) \<le> ?key (?S ! j)"
      using that by simp
    then have le: "ws_segIdx (?S ! j) \<le> ws_segIdx (?S ! i)"
      by (auto simp: less_eq_prod_def)
    have "\<forall>i<length ?S. \<forall>j<length ?S. i \<noteq> j \<longrightarrow> ws_segIdx (?S ! i) \<noteq> ws_segIdx (?S ! j)"
      using dst by (auto simp: distinct_conv_nth)
    then have "ws_segIdx (?S ! i) \<noteq> ws_segIdx (?S ! j)"
      using that by simp
    with le show ?thesis by simp
  qed
  then show ?thesis by (simp add: sorted_wrt_iff_nth_less)
qed

text \<open>
  Where the splitting loop does what its comments say. For a base path of at least two
  points and waypoints whose nearest segments are pairwise different, exactly horizontal
  or exactly vertical, and at least 10 units long, \<open>insertWaypointsIntoPath\<close> returns the
  base path with two equal points spliced into each of those segments (every original
  point is kept, moved two places for each split segment before it), and the spliced
  point lies on its segment, at least 5 units away from both of the segment's end points.
\<close>

theorem insertWaypointsIntoPath_inside:
  fixes pts :: path and wps :: "point list"
  defines "seg \<equiv> \<lambda>wp. nearestSegment wp pts"
  defines "shift \<equiv> \<lambda>i. 2 * length (filter (\<lambda>wp. seg wp < i) wps)"
  assumes len: "2 \<le> length pts"
    and apart: "distinct (map seg wps)"
    and aligned: "\<forall>wp\<in>set wps. snd (pts ! seg wp) = snd (pts ! (seg wp + 1))
                                \<or> fst (pts ! seg wp) = fst (pts ! (seg wp + 1))"
    and long: "\<forall>wp\<in>set wps. 10 \<le> \<bar>fst (pts ! seg wp) - fst (pts ! (seg wp + 1))\<bar>
                                   + \<bar>snd (pts ! seg wp) - snd (pts ! (seg wp + 1))\<bar>"
  shows "\<exists>res. insertWaypointsIntoPath pts wps = Inr res \<and>
           length res = length pts + 2 * length wps \<and>
           (\<forall>i<length pts. res ! (i + shift i) = pts ! i) \<and>
           (\<forall>wp\<in>set wps.
              res ! (seg wp + 1 + shift (seg wp)) = res ! (seg wp + 2 + shift (seg wp)) \<and>
              insideSegment 5 (pts ! seg wp) (pts ! (seg wp + 1)) (res ! (seg wp + 1 + shift (seg wp))))"
proof -
  define ws where "ws = map (locateWaypoint pts) wps"
  define W where "W = sortWpWithSeg ws"
  have segs: "map ws_segIdx ws = map seg wps"
    by (simp add: ws_def seg_def locateWaypoint_nearestSegment)
  have dst: "distinct (map ws_segIdx ws)"
    using apart by (simp add: segs)
  have desc: "sorted_wrt (\<lambda>a b. ws_segIdx b < ws_segIdx a) W"
    unfolding W_def using dst by (rule sortWpWithSeg_descending)
  have inb: "\<forall>w\<in>set W. ws_segIdx w + 1 < length pts"
    using locateWaypoint_index[OF len] by (auto simp: W_def ws_def sortWpWithSeg_set)
  have fnd: "\<forall>w\<in>set W. find (\<lambda>v. ws_segIdx v = ws_segIdx w) W = Some w"
    using dst by (auto simp: W_def sortWpWithSeg_distinct intro!: find_distinct_key)
  have cnt: "length (filter (\<lambda>v. ws_segIdx v < i) W) = length (filter (\<lambda>wp. seg wp < i) wps)" for i
    by (simp add: W_def sortWpWithSeg_filter ws_def filter_map comp_def seg_def
        locateWaypoint_nearestSegment)
  from splitSegments_descending[OF desc inb fnd]
  obtain res where run: "splitSegments W pts W = Inr res"
    and rlen: "length res = length pts + 2 * length W"
    and keep: "\<And>i. i < length pts \<Longrightarrow>
                 res ! (i + 2 * length (filter (\<lambda>v. ws_segIdx v < i) W)) = pts ! i"
    and jogs: "\<And>w. w \<in> set W \<Longrightarrow>
              res ! (ws_segIdx w + 1 + 2 * length (filter (\<lambda>v. ws_segIdx v < ws_segIdx w) W))
                = jogPoint pts w \<and>
              res ! (ws_segIdx w + 2 + 2 * length (filter (\<lambda>v. ws_segIdx v < ws_segIdx w) W))
                = jogPoint pts w"
    by blast
  have 1: "insertWaypointsIntoPath pts wps = Inr res"
  proof (cases wps)
    case Nil
    with run show ?thesis
      by (simp add: insertWaypointsIntoPath_def W_def ws_def sortWpWithSeg_def)
  next
    case (Cons a list)
    with run show ?thesis
      by (simp add: insertWaypointsIntoPath_def W_def ws_def Let_def)
  qed
  have 2: "length res = length pts + 2 * length wps"
    by (simp add: rlen W_def sortWpWithSeg_length ws_def)
  have 3: "res ! (i + shift i) = pts ! i" if "i < length pts" for i
    using keep[OF that] by (simp add: cnt shift_def)
  have 4: "res ! (seg wp + 1 + shift (seg wp)) = res ! (seg wp + 2 + shift (seg wp)) \<and>
           insideSegment 5 (pts ! seg wp) (pts ! (seg wp + 1)) (res ! (seg wp + 1 + shift (seg wp)))"
    if wp: "wp \<in> set wps" for wp
  proof -
    let ?w = "locateWaypoint pts wp"
    have mem: "?w \<in> set W" using wp by (simp add: W_def sortWpWithSeg_set ws_def)
    have sg: "ws_segIdx ?w = seg wp" by (simp add: seg_def locateWaypoint_nearestSegment)
    have j: "res ! (seg wp + 1 + shift (seg wp)) = jogPoint pts ?w"
      "res ! (seg wp + 2 + shift (seg wp)) = jogPoint pts ?w"
      using jogs[OF mem] by (simp_all add: sg cnt shift_def)
    have "insideSegment 5 (pts ! ws_segIdx ?w) (pts ! (ws_segIdx ?w + 1)) (jogPoint pts ?w)"
      using aligned long wp by (intro jogPoint_inside) (auto simp: sg)
    with j show ?thesis by (simp add: sg)
  qed
  from 1 2 3 4 show ?thesis by blast
qed

lemma ex_corner_nearest:
  "nearestSegment (50, 0) ex_corner = 0" "nearestSegment (100, 50) ex_corner = 1"
  by (simp_all add: ex_corner_def nearestSegment_def nearestStep_def pointToSegmentDist_def
      hypot_def Let_def)

theorem insertWaypointsIntoPath_inside_witness:
  "2 \<le> length ex_corner \<and>
   nearestSegment (50, 0) ex_corner = 0 \<and> nearestSegment (100, 50) ex_corner = 1 \<and>
   (\<exists>res. insertWaypointsIntoPath ex_corner [(50, 0), (100, 50)] = Inr res \<and>
          length res = 7 \<and>
          res ! 0 = (0, 0) \<and> res ! 3 = (100, 0) \<and> res ! 6 = (100, 100) \<and>
          res ! 1 = res ! 2 \<and> insideSegment 5 (0, 0) (100, 0) (res ! 1) \<and>
          res ! 4 = res ! 5 \<and> insideSegment 5 (100, 0) (100, 100) (res ! 4))"
proof -
  note n = ex_corner_nearest
  have h1: "2 \<le> length ex_corner" by (simp add: ex_corner_def)
  have h2: "distinct (map (\<lambda>wp. nearestSegment wp ex_corner) [(50, 0), (100, 50)])"
    by (simp add: n)
  have h3: "\<forall>wp\<in>set [(50, 0), (100, 50)].
              snd (ex_corner ! nearestSegment wp ex_corner) = snd (ex_corner ! (nearestSegment wp ex_corner + 1))
              \<or> fst (ex_corner ! nearestSegment wp ex_corner) = fst (ex_corner ! (nearestSegment wp ex_corner + 1))"
    by (simp add: n) (simp add: ex_corner_def)
  have h4: "\<forall>wp\<in>set [(50, 0), (100, 50)].
              10 \<le> \<bar>fst (ex_corner ! nearestSegment wp ex_corner) - fst (ex_corner ! (nearestSegment wp ex_corner + 1))\<bar>
                   + \<bar>snd (ex_corner ! nearestSegment wp ex_corner) - snd (ex_corner ! (nearestSegment wp ex_corner + 1))\<bar>"
    by (simp add: n) (simp add: ex_corner_def)
  from insertWaypointsIntoPath_inside[OF h1 h2 h3 h4]
  obtain res where r: "insertWaypointsIntoPath ex_corner [(50, 0), (100, 50)] = Inr res"
    "length res = length ex_corner + 2 * length [(50 :: real, 0 :: real), (100, 50)]"
    "\<forall>i<length ex_corner. res ! (i + 2 * length (filter (\<lambda>wp. nearestSegment wp ex_corner < i) [(50, 0), (100, 50)])) = ex_corner ! i"
    "\<forall>wp\<in>set [(50, 0), (100, 50)].
        res ! (nearestSegment wp ex_corner + 1 + 2 * length (filter (\<lambda>v. nearestSegment v ex_corner < nearestSegment wp ex_corner) [(50, 0), (100, 50)]))
          = res ! (nearestSegment wp ex_corner + 2 + 2 * length (filter (\<lambda>v. nearestSegment v ex_corner < nearestSegment wp ex_corner) [(50, 0), (100, 50)])) \<and>
        insideSegment 5 (ex_corner ! nearestSegment wp ex_corner) (ex_corner ! (nearestSegment wp ex_corner + 1))
          (res ! (nearestSegment wp ex_corner + 1 + 2 * length (filter (\<lambda>v. nearestSegment v ex_corner < nearestSegment wp ex_corner) [(50, 0), (100, 50)])))"
    by blast
  have l: "length res = 7" using r(2) by (simp add: ex_corner_def)
  have k0: "res ! 0 = (0, 0)" using n r(3)[rule_format, of 0] by (simp add: ex_corner_def)
  have k1: "res ! 3 = (100, 0)" using n r(3)[rule_format, of 1] by (simp add: ex_corner_def numeral_eq_Suc)
  have k2: "res ! 6 = (100, 100)" using n r(3)[rule_format, of 2] by (simp add: ex_corner_def numeral_eq_Suc)
  have j: "res ! 1 = res ! 2" "insideSegment 5 (0, 0) (100, 0) (res ! 1)"
    "res ! 4 = res ! 5" "insideSegment 5 (100, 0) (100, 100) (res ! 4)"
    using n r(4) by (auto simp: ex_corner_def numeral_eq_Suc)
  from h1 n r(1) l k0 k1 k2 j show ?thesis by blast
qed

text \<open>
  C5 (the code departs from the claim). The jog is not always on the segment, 5 units
  inside it.
  \<^item> A segment that is neither horizontal nor vertical is split as if it were vertical
    (\<^verbatim>\<open>// Split vertical segment: insert two points at (x, wp.y)\<close>): on the leg
    from \<open>(0, 0)\<close> to \<open>(100, 15)\<close>, as the router draws them for spread connections, the
    waypoint \<open>(50, 7)\<close> inserts \<open>(0, 7)\<close>, which is not on the segment.
  \<^item> With two waypoints on one segment every round of the loop takes the first of them
    (\<^verbatim>\<open>wpWithSeg.find\<close>) and splits the part already cut off: on the segment from
    \<open>(100, 0)\<close> to \<open>(0, 0)\<close> the waypoints \<open>(98, 0)\<close> and \<open>(97, 0)\<close> insert \<open>(95, 0)\<close> and
    then the end point \<open>(100, 0)\<close> itself, a zero-length split, although the sort, by
    segment and \<^verbatim>\<open>then t descending\<close>, provides for several waypoints on a segment.
  \<^item> On a segment shorter than 10 units the clamp
    (\<^verbatim>\<open>// Clamp X between segment endpoints\<close>) returns a point beyond the end:
    splitting the segment from \<open>(0, 0)\<close> to \<open>(3, 0)\<close> inserts \<open>(5, 0)\<close>.
\<close>

theorem insertWaypointsIntoPath_jog_off_segment:
  "insertWaypointsIntoPath [(0, 0), (100, 15)] [(50, 7)] = Inr [(0, 0), (0, 7), (0, 7), (100, 15)] \<and>
   \<not> insideSegment 0 (0, 0) (100, 15) (0, 7) \<and>
   insertWaypointsIntoPath [(100, 0), (0, 0)] [(98, 0), (97, 0)]
     = Inr [(100, 0), (100, 0), (100, 0), (95, 0), (95, 0), (0, 0)] \<and>
   \<not> insideSegment 5 (100, 0) (0, 0) (100, 0) \<and>
   insertWaypointsIntoPath [(0, 0), (3, 0)] [(1, 0)] = Inr [(0, 0), (5, 0), (5, 0), (3, 0)] \<and>
   \<not> insideSegment 0 (0, 0) (3, 0) (5, 0)"
proof -
  have 1: "insertWaypointsIntoPath [(0, 0), (3, 0)] [(1, 0)] = Inr [(0, 0), (5, 0), (5, 0), (3, 0)]"
    by (simp add: insertWaypointsIntoPath_def sortWpWithSeg_def locateWaypoint_def locateStep_def
        hypot_def splitSegment_def splice2_def Let_def)
  have 2: "\<not> insideSegment 0 (0, 0) (3, 0) (5, 0)"
    by (simp add: insideSegment_def Let_def)
  have a: "locateWaypoint [(100, 0), (0, 0)] (98, 0) = \<lparr>ws_wp = (98, 0), ws_segIdx = 0, ws_t = 1 / 50\<rparr>"
    by (simp add: locateWaypoint_def locateStep_def hypot_def Let_def)
  have b: "locateWaypoint [(100, 0), (0, 0)] (97, 0) = \<lparr>ws_wp = (97, 0), ws_segIdx = 0, ws_t = 3 / 100\<rparr>"
    by (simp add: locateWaypoint_def locateStep_def hypot_def Let_def)
  have 3: "insertWaypointsIntoPath [(100, 0), (0, 0)] [(98, 0), (97, 0)]
     = Inr [(100, 0), (100, 0), (100, 0), (95, 0), (95, 0), (0, 0)]"
    by (simp add: insertWaypointsIntoPath_def sortWpWithSeg_def a b splitSegment_def splice2_def Let_def)
  have 4: "\<not> insideSegment 5 (100, 0) (0, 0) (100, 0)"
    by (simp add: insideSegment_def Let_def)
  have c: "ws_segIdx (locateWaypoint [(0, 0), (100, 15)] (50, 7)) = 0"
    "ws_wp (locateWaypoint [(0, 0), (100, 15)] (50, 7)) = (50, 7)"
    by (simp_all add: locateWaypoint_def locateStep_def Let_def)
  have 5: "insertWaypointsIntoPath [(0, 0), (100, 15)] [(50, 7)] = Inr [(0, 0), (0, 7), (0, 7), (100, 15)]"
    by (simp add: insertWaypointsIntoPath_def sortWpWithSeg_def c splitSegment_def splice2_def Let_def)
  have 6: "\<not> insideSegment 0 (0, 0) (100, 15) (0, 7)"
    by (simp add: insideSegment_def Let_def)
  from 1 2 3 4 5 6 show ?thesis by blast
qed

section \<open>Rendering never raises\<close>

lemma computeOrthogonalPath_length:
  "2 \<le> length (computeOrthogonalPath fromPort toPort allBlocks sameGroup verticalOffset)"
  by (simp add: computeOrthogonalPath_def Let_def)

lemma find_in_set:
  assumes "w \<in> set ws" "P w"
  shows "\<exists>w'. find P ws = Some w'"
  using assms by (induction ws) auto

lemma splitSegment_ok:
  assumes "segIdx + 1 < length points" "w \<in> set ws" "ws_segIdx w = segIdx"
  shows "\<exists>r. splitSegment ws points segIdx = Inr r \<and> length r = length points + 2"
proof -
  from find_in_set[of w ws "\<lambda>w. ws_segIdx w = segIdx"] assms(2,3)
  obtain w' where "find (\<lambda>w. ws_segIdx w = segIdx) ws = Some w'" by blast
  then show ?thesis
    using assms(1) by (simp add: splitSegment_def Let_def splice2_def)
qed

lemma splitSegments_ok:
  assumes "\<forall>w \<in> set rest. ws_segIdx w + 1 < length points \<and> w \<in> set ws"
  shows "\<exists>r. splitSegments ws points rest = Inr r \<and> length r = length points + 2 * length rest"
  using assms
proof (induction rest arbitrary: points)
  case Nil
  then show ?case by simp
next
  case (Cons w rest)
  then have "ws_segIdx w + 1 < length points" "w \<in> set ws" by simp_all
  from splitSegment_ok[OF this refl]
  obtain p1 where p1: "splitSegment ws points (ws_segIdx w) = Inr p1" "length p1 = length points + 2"
    by blast
  have "\<forall>w \<in> set rest. ws_segIdx w + 1 < length p1 \<and> w \<in> set ws"
    using Cons.prems p1(2) by auto
  from Cons.IH[OF this] obtain r where
    "splitSegments ws p1 rest = Inr r" "length r = length p1 + 2 * length rest"
    by blast
  with p1 show ?case by simp
qed

lemma insertWaypointsIntoPath_ok:
  assumes "2 \<le> length pts"
  shows "\<exists>r. insertWaypointsIntoPath pts wps = Inr r \<and> length r = length pts + 2 * length wps"
proof (cases "wps = []")
  case True
  then show ?thesis by (simp add: insertWaypointsIntoPath_def)
next
  case False
  let ?ws = "sortWpWithSeg (map (locateWaypoint pts) wps)"
  have s: "set ?ws = locateWaypoint pts ` set wps" and l: "length ?ws = length wps"
    by (simp_all add: sortWpWithSeg_def)
  have "\<forall>w \<in> set ?ws. ws_segIdx w + 1 < length pts \<and> w \<in> set ?ws"
    using s locateWaypoint_index[OF assms] by auto
  from splitSegments_ok[OF this] l False show ?thesis
    by (simp add: insertWaypointsIntoPath_def Let_def)
qed

text \<open>
  Whatever the blocks, connections, waypoints and overrides are, computing the path of a
  connection does not raise: the connection is either skipped (an end block is not in
  the layout) or gets a path of at least two points.
\<close>

theorem computedPath_never_raises:
  "computedPath props st i conn = Inr None \<or>
   (\<exists>pts. computedPath props st i conn = Inr (Some pts) \<and> 2 \<le> length pts)"
proof (cases "basePathOf (layout props (blockPositionOverrides st)) (p_connections props) i conn")
  case None
  then show ?thesis by (simp add: computedPath_def)
next
  case (Some basePath)
  then have b: "2 \<le> length basePath"
    by (auto simp: basePathOf_def Let_def computeOrthogonalPath_length split: option.splits)
  from insertWaypointsIntoPath_ok[OF this, of "getList (connWaypoints st) i"]
  obtain wpPath where w0: "insertWaypointsIntoPath basePath (getList (connWaypoints st) i) = Inr wpPath"
    "length wpPath = length basePath + 2 * length (getList (connWaypoints st) i)"
    by blast
  with b have w: "insertWaypointsIntoPath basePath (getList (connWaypoints st) i) = Inr wpPath"
    "2 \<le> length wpPath"
    by simp_all
  have a: "length (applyPointOverrides wpPath ovs) = length wpPath" for ovs
    by (simp add: applyPointOverrides_def)
  show ?thesis
    using Some w a by (simp add: computedPath_def split: option.splits)
qed

section \<open>Inserting and removing a waypoint\<close>

lemma nearestSegment_bound: "nearestSegment p pts \<le> length pts - 2"
proof -
  have "ws_segIdx (locateWaypoint pts p) \<in> insert 0 (set [0..<length pts - 1])"
    unfolding locateWaypoint_segIdx
    using locate_fold_index[of pts p "(None, 0, 0)" "[0..<length pts - 1]"] by simp
  then show ?thesis
    unfolding locateWaypoint_nearestSegment by auto
qed

lemma splice2_undo:
  assumes "k \<le> length xs"
  shows "take k (splice2 k z xs) @ drop (k + 2) (splice2 k z xs) = xs"
    and "k < length (splice2 k z xs)"
  using assms by (simp_all add: splice2_def)

lemma getList_update: "getList (AList.update k v m) k = v"
  by (simp add: getList_def update_conv')

lemma getList_delete: "getList (AList.delete k m) k = []"
  by (simp add: getList_def delete_conv')

lemma getList_setOrDelete: "getList (setOrDelete k v m) k = v"
  by (simp add: setOrDelete_def getList_update getList_delete)

lemma delete_setOrDelete: "AList.delete k (setOrDelete k v m) = AList.delete k m"
  by (simp add: setOrDelete_def delete_update_same delete_idem)

lemma applyPointOverrides_pad:
  "applyPointOverrides pts (ovs @ replicate k (0, 0)) = applyPointOverrides pts ovs"
proof -
  have "(\<lambda>(i, p). if 1 \<le> i \<and> i < length pts - 1 \<and> i - 1 < length (ovs @ replicate k (0, 0))
                     \<and> (\<bar>fst ((ovs @ replicate k (0, 0)) ! (i - 1))\<bar> > 0.1
                          \<or> \<bar>snd ((ovs @ replicate k (0, 0)) ! (i - 1))\<bar> > 0.1)
                  then (fst p + fst ((ovs @ replicate k (0, 0)) ! (i - 1)),
                        snd p + snd ((ovs @ replicate k (0, 0)) ! (i - 1)))
                  else p)
        = (\<lambda>(i, p). if 1 \<le> i \<and> i < length pts - 1 \<and> i - 1 < length ovs
                     \<and> (\<bar>fst (ovs ! (i - 1))\<bar> > 0.1 \<or> \<bar>snd (ovs ! (i - 1))\<bar> > 0.1)
                  then (fst p + fst (ovs ! (i - 1)), snd p + snd (ovs ! (i - 1)))
                  else p)"
  proof (intro ext, clarify)
    fix i :: nat and a b :: real
    show "(if 1 \<le> i \<and> i < length pts - 1 \<and> i - 1 < length (ovs @ replicate k (0, 0))
                     \<and> (\<bar>fst ((ovs @ replicate k (0, 0)) ! (i - 1))\<bar> > 0.1
                          \<or> \<bar>snd ((ovs @ replicate k (0, 0)) ! (i - 1))\<bar> > 0.1)
                  then (fst (a, b) + fst ((ovs @ replicate k (0, 0)) ! (i - 1)),
                        snd (a, b) + snd ((ovs @ replicate k (0, 0)) ! (i - 1)))
                  else (a, b))
        = (if 1 \<le> i \<and> i < length pts - 1 \<and> i - 1 < length ovs
                     \<and> (\<bar>fst (ovs ! (i - 1))\<bar> > 0.1 \<or> \<bar>snd (ovs ! (i - 1))\<bar> > 0.1)
                  then (fst (a, b) + fst (ovs ! (i - 1)), snd (a, b) + snd (ovs ! (i - 1)))
                  else (a, b))"
    proof (cases "i - 1 < length ovs")
      case True
      then show ?thesis by (auto simp: nth_append)
    next
      case False
      then show ?thesis by (auto simp: nth_append)
    qed
  qed
  then show ?thesis by (simp add: applyPointOverrides_def)
qed

lemma applyPointOverrides_Nil: "applyPointOverrides pts [] = pts"
proof -
  have "map (\<lambda>(i, p). p) (enumerate n pts) = pts" for n
    by (induction pts arbitrary: n) simp_all
  then show ?thesis by (simp add: applyPointOverrides_def)
qed

text \<open>What one entry of \<open>computedPaths\<close> depends on.\<close>

lemma computedPath_cong:
  assumes "blockPositionOverrides st' = blockPositionOverrides st"
    and "getList (connWaypoints st') i = getList (connWaypoints st) i"
    and "\<And>wpPath. (case map_of (connPointOverrides st') i of
                      Some pointOvs \<Rightarrow> if length pointOvs > 0 then applyPointOverrides wpPath pointOvs
                                       else wpPath
                    | None \<Rightarrow> wpPath)
               = (case map_of (connPointOverrides st) i of
                      Some pointOvs \<Rightarrow> if length pointOvs > 0 then applyPointOverrides wpPath pointOvs
                                       else wpPath
                    | None \<Rightarrow> wpPath)"
  shows "computedPath props st' i conn = computedPath props st i conn"
proof (cases "basePathOf (layout props (blockPositionOverrides st)) (p_connections props) i conn")
  case None
  then show ?thesis using assms(1) by (simp add: computedPath_def)
next
  case (Some basePath)
  show ?thesis
  proof (cases "insertWaypointsIntoPath basePath (getList (connWaypoints st) i)")
    case (Inl err)
    then show ?thesis using Some assms(1,2) by (simp add: computedPath_def)
  next
    case (Inr wpPath)
    show ?thesis
      using Some Inr assms(1,2) assms(3)[of wpPath]
      by (cases "map_of (connPointOverrides st') i"; cases "map_of (connPointOverrides st) i")
         (simp_all add: computedPath_def)
  qed
qed

lemma rendered_overrides_getList:
  "(case map_of m i of
      Some pointOvs \<Rightarrow> if length pointOvs > 0 then applyPointOverrides wpPath pointOvs else wpPath
    | None \<Rightarrow> wpPath)
   = applyPointOverrides wpPath (getList m i)"
  by (simp add: getList_def applyPointOverrides_Nil split: option.splits)

lemma map_of_delete_eq:
  assumes "AList.delete k m' = AList.delete k m" "j \<noteq> k"
  shows "map_of m' j = map_of m j"
proof -
  have "map_of (AList.delete k m') j = map_of (AList.delete k m) j"
    by (simp add: assms(1))
  with assms(2) show ?thesis by (simp add: delete_conv)
qed

lemma handleConnDoubleClick_first_waypoint:
  assumes "connIdx < length (p_connections props)"
    and "getList (connWaypoints st) connIdx = []"
  shows "handleConnDoubleClick props (Some g) connIdx e st =
     Inr (st\<lparr>connWaypoints := AList.update connIdx [toSvg g e] (connWaypoints st),
             connPointOverrides :=
               AList.update connIdx
                 (case basePathOf (layout props (blockPositionOverrides st)) (p_connections props)
                         connIdx (p_connections props ! connIdx) of
                    None \<Rightarrow> getList (connPointOverrides st) connIdx
                  | Some basePath \<Rightarrow>
                      splice2 (nearestSegment (toSvg g e) basePath) (0, 0)
                        (padOverrides (getList (connPointOverrides st) connIdx) basePath))
                 (connPointOverrides st)\<rparr>)"
  using assms
  by (simp add: handleConnDoubleClick_def insertWaypointsIntoPath_def padOverrides_def Let_def
      split: option.splits)

lemma removeWaypoint_only_waypoint:
  assumes "connIdx < length (p_connections props)"
    and "getList (connWaypoints st1) connIdx = [p]"
    and "basePathOf (layout props (blockPositionOverrides st1)) (p_connections props)
           connIdx (p_connections props ! connIdx) = Some basePath"
    and "getList (connPointOverrides st1) connIdx = splice2 (nearestSegment p basePath) (0, 0) padded"
    and "length basePath - 2 \<le> length padded"
  shows "removeWaypoint props connIdx 0 st1 =
     Inr (st1\<lparr>connWaypoints := setOrDelete connIdx [] (connWaypoints st1),
              connPointOverrides := setOrDelete connIdx padded (connPointOverrides st1)\<rparr>)"
proof -
  have k: "nearestSegment p basePath \<le> length padded"
    using nearestSegment_bound[of p basePath] assms(5) by simp
  show ?thesis
    using assms(1-4) splice2_undo[OF k, of "(0, 0)"]
    by (simp add: removeWaypoint_def Let_def)
qed

lemma removeWaypoint_unrouted:
  assumes "connIdx < length (p_connections props)"
    and "getList (connWaypoints st1) connIdx = [p]"
    and "basePathOf (layout props (blockPositionOverrides st1)) (p_connections props)
           connIdx (p_connections props ! connIdx) = None"
  shows "removeWaypoint props connIdx 0 st1 =
     Inr (st1\<lparr>connWaypoints := setOrDelete connIdx [] (connWaypoints st1),
              connPointOverrides :=
                setOrDelete connIdx (getList (connPointOverrides st1) connIdx) (connPointOverrides st1)\<rparr>)"
  using assms by (simp add: removeWaypoint_def Let_def)

text \<open>
  A connection without waypoints: the inserted waypoint is the only one, its removal
  deletes the two entries the insertion spliced in, and what remains is the array of
  before, padded with zero entries up to the number of interior points of the base path.
  Zero entries do not move a point, so every computed path is the one of before.
\<close>

lemma insertThenRemove_first_waypoint:
  fixes props :: viewerProps and st :: viewerState
  defines "base \<equiv> basePathOf (layout props (blockPositionOverrides st)) (p_connections props)"
  defines "ovs \<equiv> \<lambda>i. getList (connPointOverrides st) i"
  assumes valid: "connIdx < length (p_connections props)"
    and nowps: "getList (connWaypoints st) connIdx = []"
  shows "\<exists>st2. insertThenRemove props g connIdx e st = Inr st2 \<and>
           blockPositionOverrides st2 = blockPositionOverrides st \<and>
           AList.delete connIdx (connWaypoints st2) = AList.delete connIdx (connWaypoints st) \<and>
           AList.delete connIdx (connPointOverrides st2) = AList.delete connIdx (connPointOverrides st) \<and>
           getList (connWaypoints st2) connIdx = [] \<and>
           getList (connPointOverrides st2) connIdx =
             (case base connIdx (p_connections props ! connIdx) of
                None \<Rightarrow> ovs connIdx
              | Some basePath \<Rightarrow> padOverrides (ovs connIdx) basePath) \<and>
           length (getList (connPointOverrides st2) connIdx) =
             (case base connIdx (p_connections props ! connIdx) of
                None \<Rightarrow> length (ovs connIdx)
              | Some basePath \<Rightarrow> max (length (ovs connIdx)) (length basePath - 2)) \<and>
           computedPaths props st2 = computedPaths props st"
proof -
  let ?p = "toSvg g e"
  let ?conn = "p_connections props ! connIdx"
  let ?ins = "case base connIdx ?conn of
                None \<Rightarrow> ovs connIdx
              | Some basePath \<Rightarrow> splice2 (nearestSegment ?p basePath) (0, 0)
                                  (padOverrides (ovs connIdx) basePath)"
  let ?fin = "case base connIdx ?conn of
                None \<Rightarrow> ovs connIdx
              | Some basePath \<Rightarrow> padOverrides (ovs connIdx) basePath"
  define st1 where "st1 = st\<lparr>connWaypoints := AList.update connIdx [?p] (connWaypoints st),
                              connPointOverrides := AList.update connIdx ?ins (connPointOverrides st)\<rparr>"
  define st2 where "st2 = st1\<lparr>connWaypoints := setOrDelete connIdx [] (connWaypoints st1),
                               connPointOverrides := setOrDelete connIdx ?fin (connPointOverrides st1)\<rparr>"
  have ins: "handleConnDoubleClick props (Some g) connIdx e st = Inr st1"
    unfolding st1_def base_def ovs_def
    by (rule handleConnDoubleClick_first_waypoint[OF valid nowps])
  have w1: "getList (connWaypoints st1) connIdx = [?p]"
    by (simp add: st1_def getList_update)
  have o1: "getList (connPointOverrides st1) connIdx = ?ins"
    by (simp add: st1_def getList_update)
  have b1: "blockPositionOverrides st1 = blockPositionOverrides st"
    by (simp add: st1_def)
  have rem: "removeWaypoint props connIdx 0 st1 = Inr st2"
  proof (cases "base connIdx ?conn")
    case None
    then have "basePathOf (layout props (blockPositionOverrides st1)) (p_connections props)
           connIdx ?conn = None"
      by (simp add: base_def b1)
    from removeWaypoint_unrouted[OF valid w1 this] None o1
    show ?thesis by (simp add: st2_def)
  next
    case (Some basePath)
    then have bp: "basePathOf (layout props (blockPositionOverrides st1)) (p_connections props)
           connIdx ?conn = Some basePath"
      by (simp add: base_def b1)
    have o: "getList (connPointOverrides st1) connIdx =
               splice2 (nearestSegment ?p basePath) (0, 0) (padOverrides (ovs connIdx) basePath)"
      using o1 Some by simp
    have l: "length basePath - 2 \<le> length (padOverrides (ovs connIdx) basePath)"
      by (simp add: padOverrides_def)
    from removeWaypoint_only_waypoint[OF valid w1 bp o l] Some
    show ?thesis by (simp add: st2_def)
  qed
  have run: "insertThenRemove props g connIdx e st = Inr st2"
    by (simp add: insertThenRemove_def ins nowps rem)
  have b2: "blockPositionOverrides st2 = blockPositionOverrides st"
    by (simp add: st2_def st1_def)
  have dw: "AList.delete connIdx (connWaypoints st2) = AList.delete connIdx (connWaypoints st)"
    by (simp add: st2_def st1_def delete_setOrDelete delete_update_same)
  have dov: "AList.delete connIdx (connPointOverrides st2) = AList.delete connIdx (connPointOverrides st)"
    by (simp add: st2_def st1_def delete_setOrDelete delete_update_same)
  have w2: "getList (connWaypoints st2) connIdx = []"
    by (simp add: st2_def getList_setOrDelete)
  have o2: "getList (connPointOverrides st2) connIdx = ?fin"
    by (simp add: st2_def getList_setOrDelete)
  have len: "length (getList (connPointOverrides st2) connIdx) =
             (case base connIdx ?conn of
                None \<Rightarrow> length (ovs connIdx)
              | Some basePath \<Rightarrow> max (length (ovs connIdx)) (length basePath - 2))"
    unfolding o2 by (auto simp: padOverrides_def split: option.splits)
  have path: "computedPath props st2 i c = computedPath props st i c"
    if c: "i = connIdx \<longrightarrow> c = ?conn" for i c
  proof (cases "i = connIdx")
    case False
    have "getList (connWaypoints st2) i = getList (connWaypoints st) i"
      using map_of_delete_eq[OF dw False] by (simp add: getList_def)
    moreover have "map_of (connPointOverrides st2) i = map_of (connPointOverrides st) i"
      by (rule map_of_delete_eq[OF dov False])
    ultimately show ?thesis
      using b2 by (intro computedPath_cong) simp_all
  next
    case True
    with c have cc: "c = ?conn" by simp
    show ?thesis
    proof (cases "base connIdx ?conn")
      case None
      then show ?thesis
        using b2 by (simp add: computedPath_def True cc base_def)
    next
      case (Some basePath)
      have "applyPointOverrides wpPath (getList (connPointOverrides st2) connIdx)
            = applyPointOverrides wpPath (getList (connPointOverrides st) connIdx)" for wpPath
        unfolding o2 using Some
        by (simp add: padOverrides_def applyPointOverrides_pad ovs_def)
      then show ?thesis
        using b2 w2 nowps unfolding True
        by (intro computedPath_cong) (simp_all add: rendered_overrides_getList)
    qed
  qed
  have paths: "computedPaths props st2 = computedPaths props st"
  proof -
    have "\<forall>(i, c) \<in> set (enumerate 0 (p_connections props)).
            computedPath props st2 i c = computedPath props st i c"
    proof (clarify)
      fix i c assume "(i, c) \<in> set (enumerate 0 (p_connections props))"
      then have "c = p_connections props ! i"
        by (auto simp: in_set_enumerate_eq)
      then show "computedPath props st2 i c = computedPath props st i c"
        by (intro path) simp
    qed
    then show ?thesis
      unfolding computedPaths_def by (intro map_cong) auto
  qed
  from run b2 dw dov w2 o2 len paths show ?thesis by blast
qed

text \<open>
  A connection that may already have waypoints: the click inserts a waypoint when it is
  farther than 15 units from each of them. The removal that follows drops the last
  waypoint of the list, which is the inserted one, and two entries of the override array
  at the segment found for it; the entries need not be the inserted ones, but the
  length of the array is the padded length of before.
\<close>

lemma basePathOf_length:
  "basePathOf lay conns i conn = Some basePath \<Longrightarrow> 2 \<le> length basePath"
  by (auto simp: basePathOf_def Let_def computeOrthogonalPath_length split: option.splits)

lemma splice2_remove_length:
  assumes "k \<le> length xs" "r \<le> length xs"
  shows "r < length (splice2 k z xs)"
    and "length (take r (splice2 k z xs) @ drop (r + 2) (splice2 k z xs)) = length xs"
  using assms by (auto simp: splice2_def)

lemma insertThenRemove_any_waypoints:
  fixes props :: viewerProps and st :: viewerState and connIdx :: nat and g :: svgGeometry
    and e :: mouseEvent
  defines "existing \<equiv> getList (connWaypoints st) connIdx"
  defines "ovs \<equiv> getList (connPointOverrides st) connIdx"
  defines "p \<equiv> toSvg g e"
  assumes valid: "connIdx < length (p_connections props)"
    and far: "find (\<lambda>i. hypot (fst (existing ! i) - fst p) (snd (existing ! i) - snd p) < 15)
                [0..<length existing] = None"
  shows "\<exists>st2. insertThenRemove props g connIdx e st = Inr st2 \<and>
           blockPositionOverrides st2 = blockPositionOverrides st \<and>
           AList.delete connIdx (connWaypoints st2) = AList.delete connIdx (connWaypoints st) \<and>
           AList.delete connIdx (connPointOverrides st2) = AList.delete connIdx (connPointOverrides st) \<and>
           getList (connWaypoints st2) connIdx = existing \<and>
           length (getList (connPointOverrides st2) connIdx) =
             (case basePathOf (layout props (blockPositionOverrides st)) (p_connections props)
                     connIdx (p_connections props ! connIdx) of
                None \<Rightarrow> length ovs
              | Some basePath \<Rightarrow> max (length ovs) (length basePath + 2 * length existing - 2))"
proof (cases "basePathOf (layout props (blockPositionOverrides st)) (p_connections props)
                     connIdx (p_connections props ! connIdx)")
  case None
  define st1 where "st1 = st\<lparr>connWaypoints := AList.update connIdx (existing @ [p]) (connWaypoints st),
                              connPointOverrides := AList.update connIdx ovs (connPointOverrides st)\<rparr>"
  define st2 where "st2 = st1\<lparr>connWaypoints := setOrDelete connIdx existing (connWaypoints st1),
                               connPointOverrides := setOrDelete connIdx ovs (connPointOverrides st1)\<rparr>"
  have ins: "handleConnDoubleClick props (Some g) connIdx e st = Inr st1"
    using valid far None
    by (simp add: handleConnDoubleClick_def Let_def st1_def existing_def[symmetric] p_def[symmetric]
        ovs_def[symmetric])
  have rem: "removeWaypoint props connIdx (length existing) st1 = Inr st2"
    using valid None
    by (simp add: removeWaypoint_def Let_def st1_def st2_def getList_update)
  have "insertThenRemove props g connIdx e st = Inr st2"
    by (simp add: insertThenRemove_def ins rem existing_def[symmetric])
  moreover have "blockPositionOverrides st2 = blockPositionOverrides st"
    by (simp add: st2_def st1_def)
  moreover have "AList.delete connIdx (connWaypoints st2) = AList.delete connIdx (connWaypoints st)"
    by (simp add: st2_def st1_def delete_setOrDelete delete_update_same)
  moreover have "AList.delete connIdx (connPointOverrides st2) = AList.delete connIdx (connPointOverrides st)"
    by (simp add: st2_def st1_def delete_setOrDelete delete_update_same)
  moreover have "getList (connWaypoints st2) connIdx = existing"
    by (simp add: st2_def getList_setOrDelete)
  moreover have "length (getList (connPointOverrides st2) connIdx) = length ovs"
    by (simp add: st2_def getList_setOrDelete)
  ultimately show ?thesis using None by simp
next
  case (Some basePath)
  have bl: "2 \<le> length basePath" by (rule basePathOf_length[OF Some])
  from insertWaypointsIntoPath_ok[OF bl, of existing]
  obtain expanded where ex: "insertWaypointsIntoPath basePath existing = Inr expanded"
    and el: "length expanded = length basePath + 2 * length existing"
    by blast
  let ?padded = "padOverrides ovs expanded"
  let ?k = "nearestSegment p expanded"
  let ?r = "nearestSegment p basePath + length existing * 2"
  let ?ov1 = "splice2 ?k (0, 0) ?padded"
  let ?ov2 = "take ?r ?ov1 @ drop (?r + 2) ?ov1"
  define st1 where "st1 = st\<lparr>connWaypoints := AList.update connIdx (existing @ [p]) (connWaypoints st),
                              connPointOverrides := AList.update connIdx ?ov1 (connPointOverrides st)\<rparr>"
  define st2 where "st2 = st1\<lparr>connWaypoints := setOrDelete connIdx existing (connWaypoints st1),
                               connPointOverrides := setOrDelete connIdx ?ov2 (connPointOverrides st1)\<rparr>"
  have ins: "handleConnDoubleClick props (Some g) connIdx e st = Inr st1"
    using valid far Some ex
    by (simp add: handleConnDoubleClick_def Let_def st1_def existing_def[symmetric] p_def[symmetric]
        ovs_def[symmetric] padOverrides_def)
  have pl: "length expanded - 2 \<le> length ?padded"
    by (simp add: padOverrides_def)
  have k: "?k \<le> length ?padded"
    using nearestSegment_bound[of p expanded] pl by simp
  have r: "?r \<le> length ?padded"
    using nearestSegment_bound[of p basePath] pl el bl by simp
  have rem: "removeWaypoint props connIdx (length existing) st1 = Inr st2"
    using valid Some splice2_remove_length(1)[OF k r, of "(0, 0)"]
    by (simp add: removeWaypoint_def Let_def st1_def st2_def getList_update)
  have "insertThenRemove props g connIdx e st = Inr st2"
    by (simp add: insertThenRemove_def ins rem existing_def[symmetric])
  moreover have "blockPositionOverrides st2 = blockPositionOverrides st"
    by (simp add: st2_def st1_def)
  moreover have "AList.delete connIdx (connWaypoints st2) = AList.delete connIdx (connWaypoints st)"
    by (simp add: st2_def st1_def delete_setOrDelete delete_update_same)
  moreover have "AList.delete connIdx (connPointOverrides st2) = AList.delete connIdx (connPointOverrides st)"
    by (simp add: st2_def st1_def delete_setOrDelete delete_update_same)
  moreover have "getList (connWaypoints st2) connIdx = existing"
    by (simp add: st2_def getList_setOrDelete)
  moreover have "length (getList (connPointOverrides st2) connIdx)
                   = max (length ovs) (length basePath + 2 * length existing - 2)"
    using splice2_remove_length(2)[OF k r, of "(0, 0)"] el
    by (simp add: st2_def getList_setOrDelete) (auto simp: padOverrides_def)
  ultimately show ?thesis using Some by simp
qed

text \<open>
  What insertion followed by removal does restore. A double click on a connection, away
  from its existing waypoints, inserts a waypoint; removing that waypoint at once succeeds
  and
  \<^item> leaves the block positions and the entries of every other connection as they were,
  \<^item> restores the connection's list of waypoints,
  \<^item> leaves its point-override array with the length \<open>max\<close> of the length before and
    the number of interior points of the current (waypointed) path: the insertion pads
    the array with zero entries up to that number
    (\<^verbatim>\<open>// Pad overrides to match current interior point count\<close>) and the removal does
    not take the padding back;
  \<^item> and, when the connection had no waypoint before, leaves the array equal to the one
    before padded with zero entries, and restores the rendered geometry: every computed
    path is what it was.
\<close>

theorem insertThenRemove_restores:
  fixes props :: viewerProps and st :: viewerState and connIdx :: nat and g :: svgGeometry
    and e :: mouseEvent
  defines "existing \<equiv> getList (connWaypoints st) connIdx"
  defines "ovs \<equiv> getList (connPointOverrides st) connIdx"
  defines "p \<equiv> toSvg g e"
  defines "base \<equiv> basePathOf (layout props (blockPositionOverrides st)) (p_connections props)
                    connIdx (p_connections props ! connIdx)"
  assumes valid: "connIdx < length (p_connections props)"
    and far: "find (\<lambda>i. hypot (fst (existing ! i) - fst p) (snd (existing ! i) - snd p) < 15)
                [0..<length existing] = None"
  shows "\<exists>st2. insertThenRemove props g connIdx e st = Inr st2 \<and>
           blockPositionOverrides st2 = blockPositionOverrides st \<and>
           AList.delete connIdx (connWaypoints st2) = AList.delete connIdx (connWaypoints st) \<and>
           AList.delete connIdx (connPointOverrides st2) = AList.delete connIdx (connPointOverrides st) \<and>
           getList (connWaypoints st2) connIdx = existing \<and>
           length (getList (connPointOverrides st2) connIdx) =
             (case base of
                None \<Rightarrow> length ovs
              | Some basePath \<Rightarrow> max (length ovs) (length basePath + 2 * length existing - 2)) \<and>
           (existing = [] \<longrightarrow>
              getList (connPointOverrides st2) connIdx =
                (case base of None \<Rightarrow> ovs | Some basePath \<Rightarrow> padOverrides ovs basePath) \<and>
              computedPaths props st2 = computedPaths props st)"
proof -
  from insertThenRemove_any_waypoints[OF valid far[unfolded existing_def p_def]]
  obtain st2 where run: "insertThenRemove props g connIdx e st = Inr st2"
    and gen: "blockPositionOverrides st2 = blockPositionOverrides st"
      "AList.delete connIdx (connWaypoints st2) = AList.delete connIdx (connWaypoints st)"
      "AList.delete connIdx (connPointOverrides st2) = AList.delete connIdx (connPointOverrides st)"
      "getList (connWaypoints st2) connIdx = existing"
      "length (getList (connPointOverrides st2) connIdx) =
             (case base of
                None \<Rightarrow> length ovs
              | Some basePath \<Rightarrow> max (length ovs) (length basePath + 2 * length existing - 2))"
    unfolding existing_def ovs_def base_def by blast
  have "getList (connPointOverrides st2) connIdx =
                (case base of None \<Rightarrow> ovs | Some basePath \<Rightarrow> padOverrides ovs basePath) \<and>
        computedPaths props st2 = computedPaths props st"
    if "existing = []"
  proof -
    from that have nowps: "getList (connWaypoints st) connIdx = []"
      by (simp add: existing_def)
    from insertThenRemove_first_waypoint[OF valid nowps, of g e] run
    show ?thesis unfolding ovs_def base_def by auto
  qed
  with run gen show ?thesis by blast
qed

lemma ex_jog_layout: "layout ex_jog_props [] = ex_jog_layout"
  unfolding ex_jog_layout_def by code_simp

lemma ex_jog_basePath:
  "basePathOf ex_jog_layout (p_connections ex_jog_props) 0 (p_connections ex_jog_props ! 0) = Some ex_jog_base"
  unfolding ex_jog_base_def by code_simp

lemma sqrt_less_iff_sq: "0 \<le> c \<Longrightarrow> sqrt x < c \<longleftrightarrow> x < c * c"
proof -
  assume "0 \<le> c"
  then have c: "sqrt (c * c) = c" by simp
  have "sqrt x < sqrt (c * c) \<longleftrightarrow> x < c * c" by (rule real_sqrt_less_iff)
  then show ?thesis unfolding c .
qed

lemma sqrt_less_numeral: "sqrt x < numeral n \<longleftrightarrow> x < numeral n * numeral n"
  by (rule sqrt_less_iff_sq) simp

lemma nearest_base: "nearestSegment (300, 136) ex_jog_base = 0"
  by (simp add: nearestSegment_def nearestStep_def pointToSegmentDist_def hypot_def Let_def
      ex_jog_base_def upt_conv_Cons)

lemma locate_expanded:
  "locateWaypoint ex_jog_base (450, 156) = \<lparr>ws_wp = (450, 156), ws_segIdx = 2, ws_t = 7 / 12\<rparr>"
  by (simp add: locateWaypoint_def locateStep_def hypot_def Let_def ex_jog_base_def upt_conv_Cons)

lemma insert_expanded: "insertWaypointsIntoPath ex_jog_base [(450, 156)] = Inr ex_jog_expanded"
  by (simp add: insertWaypointsIntoPath_def sortWpWithSeg_def locate_expanded splitSegment_def
      splice2_def Let_def)
     (simp add: ex_jog_base_def ex_jog_expanded_def)

lemma nearest_expanded: "nearestSegment (300, 136) ex_jog_expanded = 0"
  by (simp add: nearestSegment_def nearestStep_def pointToSegmentDist_def hypot_def Let_def
      ex_jog_expanded_def upt_conv_Cons)

lemma ex_click_svg: "toSvg ex_geom ex_click = (300, 136)"
  by (simp add: toSvg_def ex_geom_def ex_click_def)

lemma ex_first:
  "overridesAfter 0 (insertThenRemove ex_jog_props ex_geom 0 ex_click initialState) = Inr [(0, 0), (0, 0)]"
proof -
  have valid: "0 < length (p_connections ex_jog_props)" by (simp add: ex_jog_props_def)
  have nowps: "getList (connWaypoints initialState) 0 = []" by (simp add: initialState_def getList_def)
  have lay: "layout ex_jog_props (blockPositionOverrides initialState) = ex_jog_layout"
    by (simp add: initialState_def ex_jog_layout)
  have ov: "getList (connPointOverrides initialState) 0 = []" by (simp add: initialState_def getList_def)
  define st1 where "st1 = initialState\<lparr>connWaypoints := AList.update 0 [(300, 136)] (connWaypoints initialState),
     connPointOverrides := AList.update 0 (splice2 0 (0, 0) (padOverrides [] ex_jog_base))
        (connPointOverrides initialState)\<rparr>"
  have ins: "handleConnDoubleClick ex_jog_props (Some ex_geom) 0 ex_click initialState = Inr st1"
    unfolding handleConnDoubleClick_first_waypoint[OF valid nowps]
    by (simp add: lay ex_jog_basePath ex_click_svg nearest_base ov st1_def)
  have w1: "getList (connWaypoints st1) 0 = [(300, 136)]"
    by (simp add: st1_def getList_update)
  have b1: "basePathOf (layout ex_jog_props (blockPositionOverrides st1)) (p_connections ex_jog_props) 0
              (p_connections ex_jog_props ! 0) = Some ex_jog_base"
    by (simp add: st1_def lay ex_jog_basePath)
  have o1: "getList (connPointOverrides st1) 0
              = splice2 (nearestSegment (300, 136) ex_jog_base) (0, 0) (padOverrides [] ex_jog_base)"
    by (simp add: st1_def getList_update nearest_base)
  have l: "length ex_jog_base - 2 \<le> length (padOverrides [] ex_jog_base)"
    by (simp add: padOverrides_def)
  have rem: "removeWaypoint ex_jog_props 0 0 st1 =
     Inr (st1\<lparr>connWaypoints := setOrDelete 0 [] (connWaypoints st1),
              connPointOverrides := setOrDelete 0 (padOverrides [] ex_jog_base) (connPointOverrides st1)\<rparr>)"
    by (rule removeWaypoint_only_waypoint[OF valid w1 b1 o1 l])
  show ?thesis
    by (simp add: overridesAfter_def insertThenRemove_def ins nowps rem getList_setOrDelete
        padOverrides_def ex_jog_base_def)
qed

lemma ex_before:
  "computedPath ex_jog_props ex_state_wp 0 (p_connections ex_jog_props ! 0)
     = Inr (Some [(260, 136), (380, 146), (380, 166), (450, 156), (450, 156), (500, 156)])"
proof -
  have lay: "layout ex_jog_props (blockPositionOverrides ex_state_wp) = ex_jog_layout"
    by (simp add: ex_state_wp_def initialState_def ex_jog_layout)
  have w: "getList (connWaypoints ex_state_wp) 0 = [(450, 156)]"
    by (simp add: ex_state_wp_def getList_def)
  have o: "map_of (connPointOverrides ex_state_wp) 0 = Some [(0, 10), (0, 10), (0, 0), (0, 0)]"
    by (simp add: ex_state_wp_def)
  have a: "applyPointOverrides ex_jog_expanded [(0, 10), (0, 10), (0, 0), (0, 0)]
             = [(260, 136), (380, 146), (380, 166), (450, 156), (450, 156), (500, 156)]"
    by (simp add: applyPointOverrides_def ex_jog_expanded_def enumerate_eq_zip upt_conv_Cons)
  show ?thesis
    by (simp add: computedPath_def lay ex_jog_basePath w insert_expanded o a)
qed

lemma ex_after_state:
  "insertThenRemove ex_jog_props ex_geom 0 ex_click ex_state_wp
     = Inr (ex_state_wp\<lparr>connWaypoints := [(0, [(450, 156)])],
                        connPointOverrides := [(0, [(0, 0), (0, 0), (0, 0), (0, 0)])]\<rparr>)"
proof -
  have lay: "layout ex_jog_props (blockPositionOverrides ex_state_wp) = ex_jog_layout"
    by (simp add: ex_state_wp_def initialState_def ex_jog_layout)
  have w: "getList (connWaypoints ex_state_wp) 0 = [(450, 156)]"
    by (simp add: ex_state_wp_def getList_def)
  have o: "getList (connPointOverrides ex_state_wp) 0 = [(0, 10), (0, 10), (0, 0), (0, 0)]"
    by (simp add: ex_state_wp_def getList_def)
  have far: "\<not> hypot (450 - 300) (156 - 136) < 15"
    by (simp add: hypot_def sqrt_less_numeral)
  define st1 where "st1 = ex_state_wp\<lparr>connWaypoints := [(0, [(450, 156), (300, 136)])],
     connPointOverrides := [(0, [(0, 0), (0, 0), (0, 10), (0, 10), (0, 0), (0, 0)])]\<rparr>"
  have ins: "handleConnDoubleClick ex_jog_props (Some ex_geom) 0 ex_click ex_state_wp = Inr st1"
    using far
    by (simp add: handleConnDoubleClick_def ex_click_svg w o lay ex_jog_basePath insert_expanded
        nearest_expanded splice2_def Let_def st1_def)
       (simp add: ex_jog_props_def ex_state_wp_def ex_jog_expanded_def)
  define st2 where "st2 = st1\<lparr>connWaypoints := [(0, [(450, 156)])],
     connPointOverrides := [(0, [(0, 0), (0, 0), (0, 0), (0, 0)])]\<rparr>"
  have lay1: "layout ex_jog_props (blockPositionOverrides st1) = ex_jog_layout"
    by (simp add: st1_def lay)
  have w1: "getList (connWaypoints st1) 0 = [(450, 156), (300, 136)]"
    by (simp add: st1_def getList_def)
  have o1: "getList (connPointOverrides st1) 0 = [(0, 0), (0, 0), (0, 10), (0, 10), (0, 0), (0, 0)]"
    by (simp add: st1_def getList_def)
  have rem: "removeWaypoint ex_jog_props 0 1 st1 = Inr st2"
    by (simp add: removeWaypoint_def w1 o1 lay1 ex_jog_basePath nearest_base Let_def setOrDelete_def
        st2_def)
       (simp add: ex_jog_props_def st1_def)
  have "st2 = ex_state_wp\<lparr>connWaypoints := [(0, [(450, 156)])],
                        connPointOverrides := [(0, [(0, 0), (0, 0), (0, 0), (0, 0)])]\<rparr>"
    by (simp add: st2_def st1_def)
  with rem show ?thesis
    by (simp add: insertThenRemove_def ins w)
qed

lemma ex_after:
  "renderedAfter ex_jog_props 0 (insertThenRemove ex_jog_props ex_geom 0 ex_click ex_state_wp)
     = Inr (Some ex_jog_expanded)"
proof -
  define st2 where "st2 = ex_state_wp\<lparr>connWaypoints := [(0, [(450, 156)])],
                          connPointOverrides := [(0, [(0, 0), (0, 0), (0, 0), (0, 0)])]\<rparr>"
  have lay2: "layout ex_jog_props (blockPositionOverrides st2) = ex_jog_layout"
    by (simp add: st2_def ex_state_wp_def initialState_def ex_jog_layout)
  have w2: "getList (connWaypoints st2) 0 = [(450, 156)]"
    by (simp add: st2_def getList_def)
  have o2: "map_of (connPointOverrides st2) 0 = Some [(0, 0), (0, 0), (0, 0), (0, 0)]"
    by (simp add: st2_def)
  have a: "applyPointOverrides ex_jog_expanded [(0, 0), (0, 0), (0, 0), (0, 0)] = ex_jog_expanded"
    using applyPointOverrides_pad[of ex_jog_expanded "[]" 4]
    by (simp add: applyPointOverrides_Nil numeral_eq_Suc)
  have r: "computedPath ex_jog_props st2 0 (p_connections ex_jog_props ! 0) = Inr (Some ex_jog_expanded)"
    by (simp add: computedPath_def lay2 ex_jog_basePath w2 insert_expanded o2 a)
  show ?thesis
    unfolding ex_after_state st2_def[symmetric] by (simp add: renderedAfter_def r)
qed

theorem insertThenRemove_restores_witness:
  "0 < length (p_connections ex_jog_props) \<and>
   getList (connWaypoints initialState) 0 = [] \<and>
   (\<exists>st2. insertThenRemove ex_jog_props ex_geom 0 ex_click initialState = Inr st2 \<and>
          getList (connWaypoints st2) 0 = [] \<and>
          length (getList (connPointOverrides st2) 0) = 2 \<and>
          getList (connPointOverrides st2) 0 = [(0, 0), (0, 0)] \<and>
          computedPaths ex_jog_props st2 = computedPaths ex_jog_props initialState)"
proof -
  have valid: "0 < length (p_connections ex_jog_props)" by (simp add: ex_jog_props_def)
  have nowps: "getList (connWaypoints initialState) 0 = []" by (simp add: initialState_def getList_def)
  have far: "find (\<lambda>i. hypot (fst (getList (connWaypoints initialState) 0 ! i) - fst (toSvg ex_geom ex_click))
                            (snd (getList (connWaypoints initialState) 0 ! i) - snd (toSvg ex_geom ex_click))
                          < 15)
               [0..<length (getList (connWaypoints initialState) 0)] = None"
    by (simp add: nowps)
  have base: "basePathOf (layout ex_jog_props (blockPositionOverrides initialState))
                (p_connections ex_jog_props) 0 (p_connections ex_jog_props ! 0) = Some ex_jog_base"
    by (simp add: initialState_def ex_jog_layout ex_jog_basePath)
  have pad: "padOverrides (getList (connPointOverrides initialState) 0) ex_jog_base = [(0, 0), (0, 0)]"
    by (simp add: padOverrides_def initialState_def getList_def ex_jog_base_def)
  from insertThenRemove_restores[OF valid far]
  obtain st2 where
    "insertThenRemove ex_jog_props ex_geom 0 ex_click initialState = Inr st2"
    "getList (connWaypoints st2) 0 = getList (connWaypoints initialState) 0"
    "getList (connWaypoints initialState) 0 = [] \<longrightarrow>
       getList (connPointOverrides st2) 0 =
         (case basePathOf (layout ex_jog_props (blockPositionOverrides initialState))
                (p_connections ex_jog_props) 0 (p_connections ex_jog_props ! 0) of
            None \<Rightarrow> getList (connPointOverrides initialState) 0
          | Some basePath \<Rightarrow> padOverrides (getList (connPointOverrides initialState) 0) basePath) \<and>
       computedPaths ex_jog_props st2 = computedPaths ex_jog_props initialState"
    by blast
  with valid nowps show ?thesis
    by (auto simp: base pad)
qed

text \<open>
  The zero padding at work: on the freshly mounted viewer the connection has no point
  overrides; after inserting and removing a waypoint on its four-point path the array
  holds two zero entries, so its length is 2 and not 0.
\<close>

lemma insertThenRemove_pads_overrides:
  "length (getList (connPointOverrides initialState) 0) = 0 \<and>
   overridesAfter 0 (insertThenRemove ex_jog_props ex_geom 0 ex_click initialState)
     = Inr [(0, 0), (0, 0)]"
proof -
  have "length (getList (connPointOverrides initialState) 0) = 0"
    by (simp add: initialState_def getList_def)
  with ex_first show ?thesis by simp
qed

text \<open>
  C2 (the code departs from the claim). The connection has a waypoint \<open>(450, 156)\<close> on
  its last segment, and the user has moved its first two interior points by \<open>(0, 10)\<close>:
  the override array is \<open>[(0, 10), (0, 10), (0, 0), (0, 0)]\<close>. A double click at
  \<open>(300, 136)\<close> inserts a second waypoint, on the first segment, with its two zero entries
  at the front of the array. Its removal is meant to take these two entries out again
  (\<^verbatim>\<open>// Remove the 2 point override entries for this waypoint's interior points\<close>),
  but it deletes at \<^verbatim>\<open>bestSeg + wpIdx * 2\<close>, the segment found on the base path plus
  two for each waypoint clicked earlier, wherever on the path those are: it takes out the
  two \<open>(0, 10)\<close> entries. The array has its old length, the user's overrides are gone,
  and the rendered path is a different one.
\<close>

theorem insertThenRemove_deletes_other_overrides:
  "getList (connWaypoints ex_state_wp) 0 = [(450, 156)] \<and>
   getList (connPointOverrides ex_state_wp) 0 = [(0, 10), (0, 10), (0, 0), (0, 0)] \<and>
   computedPath ex_jog_props ex_state_wp 0 (p_connections ex_jog_props ! 0)
     = Inr (Some [(260, 136), (380, 146), (380, 166), (450, 156), (450, 156), (500, 156)]) \<and>
   overridesAfter 0 (insertThenRemove ex_jog_props ex_geom 0 ex_click ex_state_wp)
     = Inr [(0, 0), (0, 0), (0, 0), (0, 0)] \<and>
   renderedAfter ex_jog_props 0 (insertThenRemove ex_jog_props ex_geom 0 ex_click ex_state_wp)
     = Inr (Some [(260, 136), (380, 136), (380, 156), (450, 156), (450, 156), (500, 156)])"
proof -
  have w: "getList (connWaypoints ex_state_wp) 0 = [(450, 156)]"
    by (simp add: ex_state_wp_def getList_def)
  have o: "getList (connPointOverrides ex_state_wp) 0 = [(0, 10), (0, 10), (0, 0), (0, 0)]"
    by (simp add: ex_state_wp_def getList_def)
  have oa: "overridesAfter 0 (insertThenRemove ex_jog_props ex_geom 0 ex_click ex_state_wp)
              = Inr [(0, 0), (0, 0), (0, 0), (0, 0)]"
    by (simp add: overridesAfter_def ex_after_state getList_def)
  from w o oa ex_before ex_after show ?thesis
    by (simp add: ex_jog_expanded_def)
qed

section \<open>Every block of a group gets a column\<close>

lemma fill_columns_defined:
  "k \<in> block_id ` set bs \<or> map_of cm k \<noteq> None \<Longrightarrow>
   map_of (foldl (\<lambda>cm b. if map_of cm (block_id b) = None
                          then AList.update (block_id b) col cm else cm) cm bs) k \<noteq> None"
proof (induction bs arbitrary: cm)
  case Nil
  then show ?case by simp
next
  case (Cons b bs)
  let ?cm = "if map_of cm (block_id b) = None then AList.update (block_id b) col cm else cm"
  have "k \<in> block_id ` set bs \<or> map_of ?cm k \<noteq> None"
    using Cons.prems by (auto simp: update_conv')
  from Cons.IH[OF this] show ?case by simp
qed

text \<open>
  A block that the breadth-first search never reaches (it lies on a cycle, or behind
  one) still receives a column: the one after the last layer.
\<close>

theorem blockColumn_total:
  "b \<in> set gblocks \<Longrightarrow> \<exists>col. map_of (blockColumn gblocks connections) (block_id b) = Some col"
proof -
  assume "b \<in> set gblocks"
  then have "block_id b \<in> block_id ` set gblocks" by simp
  then have "map_of (blockColumn gblocks connections) (block_id b) \<noteq> None"
    unfolding blockColumn_def Let_def by (intro fill_columns_defined) simp
  then show ?thesis by auto
qed

theorem blockColumn_total_witness:
  "ex_cycle_blocks ! 0 \<in> set ex_cycle_blocks \<and>
   blockColumn ex_cycle_blocks ex_cycle_conns = [(''R'', 0), (''P'', 1), (''Q'', 1)] \<and>
   (\<exists>col. map_of (blockColumn ex_cycle_blocks ex_cycle_conns) (block_id (ex_cycle_blocks ! 0)) = Some col)"
proof -
  have m: "ex_cycle_blocks ! 0 \<in> set ex_cycle_blocks" by (simp add: ex_cycle_blocks_def)
  have v: "blockColumn ex_cycle_blocks ex_cycle_conns = [(''R'', 0), (''P'', 1), (''Q'', 1)]"
    by code_simp
  from blockColumn_total[OF m, of ex_cycle_conns] m v show ?thesis by blast
qed

section \<open>Loading when there is nothing to load\<close>

theorem loadEffect_tolerates_witness:
  "getItem ex_storage_empty (getLayoutKey ''d1'') = Inr None \<and>
   p_designId ex_props = Some ''d1'' \<and>
   loadEffect ex_parse ex_storage_empty ex_props initialState = Inr initialState"
proof -
  have g: "getItem ex_storage_empty (getLayoutKey ''d1'') = Inr None"
    by (simp add: getItem_def ex_storage_empty_def)
  then have h: "getItem ex_storage_empty (getLayoutKey ''d1'') = Inl StorageError
           \<or> getItem ex_storage_empty (getLayoutKey ''d1'') = Inr None
           \<or> getItem ex_storage_empty (getLayoutKey ''d1'') = Inr (Some [])
           \<or> (\<exists>raw. getItem ex_storage_empty (getLayoutKey ''d1'') = Inr (Some raw)
                  \<and> (ex_parse raw = Inl SyntaxError \<or> ex_parse raw = Inr Falsy))"
    by simp
  have d: "p_designId ex_props = Some ''d1''" by (simp add: ex_props_def)
  from loadEffect_tolerates_missing_or_unparsable[OF h d, of initialState] g d
  show ?thesis by blast
qed

section \<open>The zoom factor stays in range\<close>

text \<open>
  The zoom factor starts at 1 and every handler that sets it keeps it within
  \<open>[0.2, 5]\<close>; in particular it is never zero.
\<close>

lemma onWheel_zoom_range:
  assumes "onWheel e st = Some st'" and "0.2 \<le> zoom st" and "zoom st \<le> 5"
  shows "0.2 \<le> zoom st' \<and> zoom st' \<le> 5"
proof (cases "w_ctrlKey e")
  case True
  with assms(1) obtain scaled where "zoom st' = min (max scaled (lit 0.2)) 5"
    by (auto simp: onWheel_def Let_def split: bind_splits)
  with newZoom_range[of scaled] show ?thesis by simp
next
  case False
  with assms(1) have "zoom st' = zoom st"
    by (auto simp: onWheel_def split: bind_splits)
  with assms(2,3) show ?thesis by simp
qed

lemma fl_near:
  assumes "fl x = Some y" and "0 \<le> x"
  shows "x - x / 9 - 1 / 128 \<le> y" and "y \<le> x + x / 9 + 1 / 128"
proof -
  have "u53 * \<bar>x\<bar> \<le> (1 / 9) * x"
    using u53_small assms(2) by (intro mult_mono) simp_all
  moreover have "\<bar>y - x\<bar> \<le> u53 * \<bar>x\<bar> + eta" using assms(1) by (rule fl_error)
  ultimately show "x - x / 9 - 1 / 128 \<le> y" and "y \<le> x + x / 9 + 1 / 128"
    using eta_small by linarith+
qed

lemma handleZoomIn_range:
  assumes "handleZoomIn st = Some st'" and "0.2 \<le> zoom st" and "zoom st \<le> 5"
  shows "0.2 \<le> zoom st' \<and> zoom st' \<le> 5"
proof -
  from assms(1) obtain z where z: "fl (zoom st * 1.25) = Some z" and s: "zoom st' = min z 5"
    by (auto simp: handleZoomIn_def fmul_def split: bind_splits)
  from fl_near(1)[OF z] assms(2) have "0.2 \<le> z" by simp
  with s show ?thesis by simp
qed

lemma handleZoomOut_range:
  assumes "handleZoomOut st = Some st'" and "0.2 \<le> zoom st" and "zoom st \<le> 5"
  shows "0.2 \<le> zoom st' \<and> zoom st' \<le> 5"
proof -
  from assms(1) obtain z where z: "fl (zoom st / 1.25) = Some z" and s: "zoom st' = max z (lit 0.2)"
    by (auto simp: handleZoomOut_def fdiv_def split: bind_splits)
  from fl_near(2)[OF z] assms(2,3) have "z \<le> 5" by simp
  with s lit_02_ge lit_02_le show ?thesis by simp
qed

lemma zoom_range_invariant:
  assumes "0.2 \<le> zoom st" "zoom st \<le> 5"
  shows "0.2 \<le> zoom (handleReset st) \<and> zoom (handleReset st) \<le> 5"
    and "zoom (handleCanvasMouseMove props svgEl m st) = zoom st"
    and "zoom (handleCanvasMouseUp st) = zoom st"
  using assms
  by (auto simp: handleReset_def Let_def handleCanvasMouseMove_def handleCanvasMouseUp_def
      split: option.splits prod.splits)

lemma zoom_initial: "0.2 \<le> zoom initialState \<and> zoom initialState \<le> 5"
  by (simp add: initialState_def)

section \<open>Removing the last override\<close>

text \<open>
  Removing the only waypoint of a viewer that has no other override leaves all three
  collections empty, the state in which the save effect schedules nothing.
\<close>

lemma removeWaypoint_last_override:
  assumes "connIdx < length (p_connections props)"
    and "connWaypoints st = [(connIdx, [w])]" "connPointOverrides st = []"
    and "blockPositionOverrides st = []"
  shows "\<exists>st'. removeWaypoint props connIdx 0 st = Inr st' \<and>
           length (blockPositionOverrides st') = 0 \<and> length (connPointOverrides st') = 0 \<and>
           length (connWaypoints st') = 0"
  using assms
  by (cases "basePathOf (layout props []) (p_connections props) connIdx (p_connections props ! connIdx)")
     (simp_all add: removeWaypoint_def getList_def setOrDelete_def Let_def)

end
